theory Spec2Isabelle
  imports Main "HOL-Library.Sublist"
begin

section \<open>The host environment\<close>

text \<open>
  The diff view of \<^verbatim>\<open>src/gitDiffView.ts\<close> lives inside an editor host. The
  host's objects are modelled by the state the class reads and writes; what the host
  computes on its own (asset URIs, the markup of a diff) is a parameter.
\<close>

type_synonym ViewColumn = int

definition ViewColumn_Beside :: ViewColumn where
  \<comment> \<open>\<^verbatim>\<open>vscode.ViewColumn.Beside\<close>, the default of the \<^verbatim>\<open>column\<close> parameter\<close>
  "ViewColumn_Beside = - 2"

text \<open>The functions the class imports and does not define.\<close>

record Env =
  diff2html :: "string \<Rightarrow> string"      \<comment> \<open>\<^verbatim>\<open>html\<close> of the package diff2html\<close>
  asWebviewUri :: "string \<Rightarrow> string"   \<comment> \<open>\<^verbatim>\<open>panel.webview.asWebviewUri\<close>, read as text\<close>
  uriFile :: "string \<Rightarrow> string"        \<comment> \<open>\<^verbatim>\<open>vscode.Uri.file\<close>\<close>
  pathJoin :: "string list \<Rightarrow> string"  \<comment> \<open>\<^verbatim>\<open>path.join\<close>\<close>

text \<open>
  A webview panel: the arguments it was created with, the document it shows, the
  visibility the host reports, the reveal requests it received, and which of its two
  events have a listener of the owning view attached.
\<close>

record WebviewPanel =
  viewType :: string
  panelTitle :: string
  showColumn :: ViewColumn
  enableScripts :: bool
  localResourceRoots :: "string list"
  webviewHtml :: string
  visible :: bool
  reveals :: "ViewColumn list"
  panelDisposed :: bool
  onDidDisposeAttached :: bool
  onDidChangeViewStateAttached :: bool

definition createWebviewPanel ::
  "string \<Rightarrow> string \<Rightarrow> ViewColumn \<Rightarrow> bool \<Rightarrow> string list \<Rightarrow> WebviewPanel" where
  "createWebviewPanel vt ttl column scripts roots =
     \<lparr> viewType = vt, panelTitle = ttl, showColumn = column, enableScripts = scripts,
       localResourceRoots = roots, webviewHtml = [], visible = True, reveals = [],
       panelDisposed = False, onDidDisposeAttached = False,
       onDidChangeViewStateAttached = False \<rparr>"

section \<open>The class GitDiffView\<close>

text \<open>
  The four disposables the constructor hands to \<^verbatim>\<open>registerDisposables\<close>, in
  the order of the call.
\<close>

datatype Cleanup =
    ClearCurrentPanel               \<comment> \<open>\<^verbatim>\<open>toDisposable(() => { GitDiffView.currentPanel = undefined; })\<close>\<close>
  | OnDidDisposeListener            \<comment> \<open>what \<^verbatim>\<open>panel.onDidDispose(...)\<close> returned\<close>
  | OnDidChangeViewStateListener    \<comment> \<open>what \<^verbatim>\<open>panel.onDidChangeViewState(...)\<close> returned\<close>
  | ThePanel                        \<comment> \<open>\<^verbatim>\<open>this.panel\<close>\<close>

text \<open>
  An instance: the two fields of the base class \<^verbatim>\<open>Disposable\<close>, then the fields
  the class declares. The output channel \<^verbatim>\<open>logger\<close> is the list of its lines.
\<close>

record GitDiffView =
  disposables :: "Cleanup list"
  disposed :: bool
  panel :: WebviewPanel
  extensionPath :: string
  isPanelVisible :: bool
  gitCmd :: string
  logger :: "string list"
  filePath :: string

text \<open>
  The program state: the objects created so far (an instance is known by its index),
  the static slot \<^verbatim>\<open>GitDiffView.currentPanel\<close>, the owners of the listeners
  subscribed to \<^verbatim>\<open>workspace.onDidSaveTextDocument\<close>, the calls of
  \<^verbatim>\<open>execShell\<close> whose promise has not settled (the instance that waits and the
  command it passed), and the history of the cleanup actions that have run.
\<close>

record World =
  instances :: "GitDiffView list"
  currentPanel :: "nat option"
  saveListeners :: "nat list"
  pending :: "(nat \<times> string) list"
  cleanupTrace :: "(nat \<times> Cleanup) list"

definition initialWorld :: World where
  "initialWorld = \<lparr> instances = [], currentPanel = None, saveListeners = [],
                     pending = [], cleanupTrace = [] \<rparr>"

definition updInstance :: "nat \<Rightarrow> (GitDiffView \<Rightarrow> GitDiffView) \<Rightarrow> World \<Rightarrow> World" where
  "updInstance i f w = w\<lparr> instances := (instances w)[i := f (instances w ! i)] \<rparr>"

definition updPanel :: "nat \<Rightarrow> (WebviewPanel \<Rightarrow> WebviewPanel) \<Rightarrow> World \<Rightarrow> World" where
  "updPanel i f w = updInstance i (\<lambda>v. v\<lparr> panel := f (panel v) \<rparr>) w"

definition appendLine :: "nat \<Rightarrow> string \<Rightarrow> World \<Rightarrow> World" where
  \<comment> \<open>\<^verbatim>\<open>this.logger.appendLine(line)\<close>\<close>
  "appendLine i line w = updInstance i (\<lambda>v. v\<lparr> logger := logger v @ [line] \<rparr>) w"

subsection \<open>Strings\<close>

definition endsWith :: "string \<Rightarrow> string \<Rightarrow> bool" where
  \<comment> \<open>\<^verbatim>\<open>s.endsWith(searchString)\<close> of JavaScript, with the default end position\<close>
  "endsWith s searchString =
     (length searchString \<le> length s \<and>
      drop (length s - length searchString) s = searchString)"

definition tab :: string where
  "tab = [CHR 0x09]"

definition nl :: string where
  "nl = [CHR 0x0A]"

subsection \<open>Rendering\<close>

definition getUri :: "Env \<Rightarrow> GitDiffView \<Rightarrow> string list \<Rightarrow> string" where
  "getUri env v pathComps = uriFile env (pathJoin env (extensionPath v # pathComps))"

definition getMediaUri :: "Env \<Rightarrow> GitDiffView \<Rightarrow> string \<Rightarrow> string" where
  "getMediaUri env v file = asWebviewUri env (getUri env v [''media'', file])"

text \<open>
  The template literal of \<^verbatim>\<open>getHtmlForWebview\<close>, cut where the source
  interpolates: before the style sheet URI, between the URI and the diff, between the
  diff and the command, and after the command.
\<close>

definition htmlHead :: string where
  \<open>htmlHead =
     nl @ tab @ tab @ ''<!DOCTYPE html>'' @
     nl @ tab @ tab @ ''<html lang="en" id="diff-2-html">'' @
     nl @ tab @ tab @ ''<head>'' @
     nl @ tab @ tab @ tab @ ''<title></title>'' @
     nl @ tab @ tab @ tab @ ''<meta charset="UTF-8">'' @
     nl @ tab @ tab @ tab @
       ''<meta name="viewport" content="width=device-width, initial-scale=1.0">'' @
     nl @ tab @ tab @ tab @
       ''<meta http-equiv="Content-Type" content="text/html; charset=UTF-8">'' @
     nl @ tab @ tab @ tab @ ''<link rel="stylesheet" type="text/css" href="''\<close>

definition htmlLinks :: string where
  \<open>htmlLinks =
     ''">'' @
     nl @ tab @ tab @ tab @
       ''<link rel="stylesheet" href="https://cdnjs.cloudflare.com/ajax/libs/highlight.js/11.2.0/styles/github.min.css" />'' @
     nl @ tab @ tab @ tab @
       ''<link rel="stylesheet" type="text/css" href="https://cdn.jsdelivr.net/npm/diff2html/bundles/css/diff2html.min.css" />'' @
     nl @ tab @ tab @ tab @
       ''<script type="text/javascript" src="https://cdn.jsdelivr.net/npm/diff2html/bundles/js/diff2html-ui.min.js"></script>'' @
     nl @ tab @ tab @ ''</head>''\<close>

definition htmlBodyOpen :: string where
  \<open>htmlBodyOpen =
     htmlLinks @
     nl @ tab @ tab @ ''<body style="position:inherit">'' @
     nl @ tab @ tab @ tab @ ''<div id="app">'' @
     nl @ tab @ tab @ tab @ tab\<close>

definition htmlCmdOpen :: string where
  \<open>htmlCmdOpen =
     nl @ tab @ tab @ tab @ ''</div>'' @
     nl @
     nl @ tab @ tab @ tab @ ''<div>'' @
     nl @ tab @ tab @ tab @ tab @ ''<hr/><br/>'' @
     nl @ tab @ tab @ tab @ tab @ ''<b>The cmd use to generate this is:</b><br/>'' @
     nl @ tab @ tab @ tab @ tab\<close>

definition htmlTail :: string where
  \<open>htmlTail =
     '';'' @
     nl @ tab @ tab @ tab @ ''</div>'' @
     nl @ tab @ tab @ ''</body>'' @
     nl @ tab @ tab @ ''</html>''\<close>

definition getHtmlForWebview :: "Env \<Rightarrow> GitDiffView \<Rightarrow> string \<Rightarrow> string" where
  "getHtmlForWebview env v diffContent =
     htmlHead @ getMediaUri env v ''out.min.css'' @ htmlBodyOpen @
     diff2html env diffContent @ htmlCmdOpen @ gitCmd v @ htmlTail"

subsection \<open>Refreshing\<close>

text \<open>
  \<^verbatim>\<open>refreshViewContent\<close> calls \<^verbatim>\<open>execShell(this.gitCmd)\<close> and attaches a
  \<^verbatim>\<open>then\<close> callback to the promise; it attaches no rejection handler. The call
  puts the promise among the pending ones. The promise settles in a later turn of the
  event loop (\<open>settle\<close>): fulfilled with the standard output (\<open>Inr\<close>) it runs the
  callback, rejected (\<open>Inl\<close>) it runs nothing of this class. The callback reads
  \<^verbatim>\<open>this.gitCmd\<close> again when it renders. The host refuses to assign the document
  of a disposed webview: the assignment throws inside the callback, and the line after it
  is not reached.
\<close>

definition refreshViewContent :: "nat \<Rightarrow> World \<Rightarrow> World" where
  "refreshViewContent i w = w\<lparr> pending := pending w @ [(i, gitCmd (instances w ! i))] \<rparr>"

definition onFulfilled :: "Env \<Rightarrow> nat \<Rightarrow> string \<Rightarrow> World \<Rightarrow> World" where
  "onFulfilled env i stdout w =
     (let v = instances w ! i in
      if panelDisposed (panel v) then w
      else appendLine i ''content refreshed''
             (updPanel i (\<lambda>p. p\<lparr> webviewHtml := getHtmlForWebview env v stdout \<rparr>) w))"

definition settle :: "Env \<Rightarrow> nat \<Rightarrow> string + string \<Rightarrow> World \<Rightarrow> World" where
  "settle env k outcome w =
     (if k < length (pending w) then
        let i = fst (pending w ! k);
            w' = w\<lparr> pending := take k (pending w) @ drop (Suc k) (pending w) \<rparr>
        in (case outcome of
              Inr stdout \<Rightarrow> onFulfilled env i stdout w'
            | Inl err \<Rightarrow> w')
      else w)"

subsection \<open>The listener for saved documents\<close>

definition onDidSaveTextDocument :: "nat \<Rightarrow> string \<Rightarrow> World \<Rightarrow> World" where
  "onDidSaveTextDocument i uriPath w =
     (let fp = filePath (instances w ! i) in
      if uriPath \<noteq> [] \<and> endsWith uriPath fp then
        refreshViewContent i (appendLine i (''<<<refreshViewContent>>>  '' @ fp) w)
      else if fp = ''.'' then
        refreshViewContent i
          (appendLine i ''<<<refreshViewContent>>> for current repository.'' w)
      else w)"

text \<open>The host delivers a saved document to every subscribed listener, in order.\<close>

definition saveTextDocument :: "string \<Rightarrow> World \<Rightarrow> World" where
  "saveTextDocument uriPath w =
     foldl (\<lambda>w' i. onDidSaveTextDocument i uriPath w') w (saveListeners w)"

subsection \<open>Construction and reuse\<close>

definition registerDisposables :: "nat \<Rightarrow> Cleanup list \<Rightarrow> World \<Rightarrow> World" where
  \<comment> \<open>Modelled from the spec: \<^verbatim>\<open>registerDisposables\<close> of the base class
      \<^verbatim>\<open>Disposable\<close> (\<^verbatim>\<open>utils/disposable\<close>), "register(action) appends".\<close>
  "registerDisposables i ds w = updInstance i (\<lambda>v. v\<lparr> disposables := disposables v @ ds \<rparr>) w"

definition newGitDiffView ::
  "Env \<Rightarrow> string \<Rightarrow> string \<Rightarrow> string \<Rightarrow> ViewColumn \<Rightarrow> World \<Rightarrow> nat \<times> World" where
  "newGitDiffView env ep cmd fp column w =
     (let i = length (instances w);
          v = \<lparr> disposables = [], disposed = False,
                panel = createWebviewPanel ''Diff Viewer'' ''Diff Viewer'' column True
                          [uriFile env (pathJoin env [ep, ''media''])],
                extensionPath = ep, isPanelVisible = True, gitCmd = cmd,
                logger = [], filePath = fp \<rparr>;
          w1 = w\<lparr> instances := instances w @ [v] \<rparr>;
          w2 = refreshViewContent i w1;
          w3 = w2\<lparr> saveListeners := saveListeners w2 @ [i] \<rparr>;
          w4 = updPanel i (\<lambda>p. p\<lparr> onDidDisposeAttached := True,
                                     onDidChangeViewStateAttached := True \<rparr>) w3
      in (i, registerDisposables i
               [ClearCurrentPanel, OnDidDisposeListener, OnDidChangeViewStateListener,
                ThePanel] w4))"

definition reveal :: "nat \<Rightarrow> ViewColumn \<Rightarrow> World \<Rightarrow> World" where
  \<comment> \<open>\<^verbatim>\<open>panel.reveal(column)\<close>: the request reaches the host\<close>
  "reveal i column w = updPanel i (\<lambda>p. p\<lparr> reveals := reveals p @ [column] \<rparr>) w"

definition createOrShow ::
  "Env \<Rightarrow> string \<Rightarrow> string \<Rightarrow> string \<Rightarrow> ViewColumn option \<Rightarrow> World \<Rightarrow> World" where
  "createOrShow env ep cmd fp columnArg w =
     (let column = (case columnArg of None \<Rightarrow> ViewColumn_Beside | Some c \<Rightarrow> c) in
      case currentPanel w of
        Some i \<Rightarrow>
          refreshViewContent i
            (updInstance i (\<lambda>v. v\<lparr> filePath := fp \<rparr>)
              (updInstance i (\<lambda>v. v\<lparr> gitCmd := cmd \<rparr>)
                (reveal i column w)))
      | None \<Rightarrow>
          (let (i, w') = newGitDiffView env ep cmd fp column w
           in w'\<lparr> currentPanel := Some i \<rparr>))"

subsection \<open>Visibility\<close>

definition onDidChangeViewState :: "nat \<Rightarrow> World \<Rightarrow> World" where
  "onDidChangeViewState i w =
     (let v = instances w ! i in
      if visible (panel v) \<noteq> isPanelVisible v
      then updInstance i (\<lambda>v'. v'\<lparr> isPanelVisible := visible (panel v) \<rparr>) w
      else w)"

text \<open>
  The host shows or hides a panel: it records the new visibility and then fires the
  panel's view-state event, which reaches the view while its listener is attached.
\<close>

definition changeViewState :: "nat \<Rightarrow> bool \<Rightarrow> World \<Rightarrow> World" where
  "changeViewState i vis w =
     (if i < length (instances w) \<and> \<not> panelDisposed (panel (instances w ! i)) then
        let w' = updPanel i (\<lambda>p. p\<lparr> visible := vis \<rparr>) w
        in if onDidChangeViewStateAttached (panel (instances w ! i))
           then onDidChangeViewState i w' else w'
      else w)"

subsection \<open>Disposal\<close>

text \<open>
  What each registered disposable does when it is disposed. Disposing a panel that the
  host has already disposed does nothing. The panel's dispose event would call
  \<^verbatim>\<open>this.dispose()\<close> again from inside the running disposal; that call finds
  the view already disposed.
\<close>

fun cleanup :: "nat \<Rightarrow> Cleanup \<Rightarrow> World \<Rightarrow> World" where
  "cleanup i ClearCurrentPanel w = w\<lparr> currentPanel := None \<rparr>"
| "cleanup i OnDidDisposeListener w =
     updPanel i (\<lambda>p. p\<lparr> onDidDisposeAttached := False \<rparr>) w"
| "cleanup i OnDidChangeViewStateListener w =
     updPanel i (\<lambda>p. p\<lparr> onDidChangeViewStateAttached := False \<rparr>) w"
| "cleanup i ThePanel w = updPanel i (\<lambda>p. p\<lparr> panelDisposed := True \<rparr>) w"

definition runCleanup :: "nat \<Rightarrow> World \<Rightarrow> Cleanup \<Rightarrow> World" where
  "runCleanup i w a = (cleanup i a w)\<lparr> cleanupTrace := cleanupTrace w @ [(i, a)] \<rparr>"

definition dispose :: "nat \<Rightarrow> World \<Rightarrow> World" where
  \<comment> \<open>Modelled from the spec: \<^verbatim>\<open>dispose\<close> of the base class \<^verbatim>\<open>Disposable\<close>
      (\<^verbatim>\<open>utils/disposable\<close>), "invokes every registered action exactly once, in
      registration order, and is itself idempotent (a second call is a no-op)".\<close>
  "dispose i w =
     (if i < length (instances w) \<and> \<not> disposed (instances w ! i)
      then foldl (runCleanup i)
             (updInstance i (\<lambda>v. v\<lparr> disposed := True \<rparr>) w)
             (disposables (instances w ! i))
      else w)"

text \<open>
  The user closes a panel: the host disposes it and fires its dispose event, which
  reaches \<^verbatim>\<open>() => this.dispose()\<close> while that listener is attached.
\<close>

definition closePanel :: "nat \<Rightarrow> World \<Rightarrow> World" where
  "closePanel i w =
     (if i < length (instances w) \<and> \<not> panelDisposed (panel (instances w ! i)) then
        let w' = updPanel i (\<lambda>p. p\<lparr> panelDisposed := True \<rparr>) w
        in if onDidDisposeAttached (panel (instances w ! i)) then dispose i w' else w'
      else w)"

subsection \<open>Runs\<close>

datatype Event =
    CreateOrShow string string string "ViewColumn option"
  | SaveTextDocument string
  | Settle nat "string + string"
  | ChangeViewState nat bool
  | ClosePanel nat
  | Dispose nat

fun step :: "Env \<Rightarrow> World \<Rightarrow> Event \<Rightarrow> World" where
  "step env w (CreateOrShow ep cmd fp column) = createOrShow env ep cmd fp column w"
| "step env w (SaveTextDocument uriPath) = saveTextDocument uriPath w"
| "step env w (Settle k outcome) = settle env k outcome w"
| "step env w (ChangeViewState i vis) = changeViewState i vis w"
| "step env w (ClosePanel i) = closePanel i w"
| "step env w (Dispose i) = dispose i w"

definition run :: "Env \<Rightarrow> Event list \<Rightarrow> World" where
  "run env es = foldl (step env) initialWorld es"

definition liveInstances :: "World \<Rightarrow> nat list" where
  "liveInstances w =
     filter (\<lambda>i. \<not> disposed (instances w ! i)) [0..<length (instances w)]"

section \<open>The earlier design of the class\<close>

text \<open>
  The second source file (\<^verbatim>\<open>src/unnamed/part_000\<close>) is the same class in its
  earlier design: \<^verbatim>\<open>createOrShow\<close> is handed the diff text itself and renders
  it at once; there is no command, no watched path, no save listener and no output
  channel. Its names carry the suffix \<open>0\<close>. The template of its document has the head
  of the later one, an empty \<^verbatim>\<open>app\<close> division, and the fragment directly in the
  body.
\<close>

record GitDiffView0 =
  disposables0 :: "Cleanup list"
  disposed0 :: bool
  panel0 :: WebviewPanel
  extensionPath0 :: string
  isPanelVisible0 :: bool

record World0 =
  instances0 :: "GitDiffView0 list"
  currentPanel0 :: "nat option"

definition initialWorld0 :: World0 where
  "initialWorld0 = \<lparr> instances0 = [], currentPanel0 = None \<rparr>"

definition updInstance0 :: "nat \<Rightarrow> (GitDiffView0 \<Rightarrow> GitDiffView0) \<Rightarrow> World0 \<Rightarrow> World0" where
  "updInstance0 i f w = w\<lparr> instances0 := (instances0 w)[i := f (instances0 w ! i)] \<rparr>"

definition updPanel0 :: "nat \<Rightarrow> (WebviewPanel \<Rightarrow> WebviewPanel) \<Rightarrow> World0 \<Rightarrow> World0" where
  "updPanel0 i f w = updInstance0 i (\<lambda>v. v\<lparr> panel0 := f (panel0 v) \<rparr>) w"

definition getUri0 :: "Env \<Rightarrow> GitDiffView0 \<Rightarrow> string list \<Rightarrow> string" where
  "getUri0 env v pathComps = uriFile env (pathJoin env (extensionPath0 v # pathComps))"

definition getMediaUri0 :: "Env \<Rightarrow> GitDiffView0 \<Rightarrow> string \<Rightarrow> string" where
  "getMediaUri0 env v file = asWebviewUri env (getUri0 env v [''media'', file])"

definition htmlBodyOpen0 :: string where
  \<open>htmlBodyOpen0 =
     htmlLinks @
     nl @ tab @ tab @ ''<body>'' @
     nl @ tab @ tab @ tab @ ''<div id="app"></div>'' @
     nl @ tab @ tab @ tab\<close>

definition htmlTail0 :: string where
  \<open>htmlTail0 =
     nl @ tab @ tab @ ''</body>'' @
     nl @ tab @ tab @ ''</html>''\<close>

definition getHtmlForWebview0 :: "Env \<Rightarrow> GitDiffView0 \<Rightarrow> string \<Rightarrow> string" where
  "getHtmlForWebview0 env v diffContent =
     htmlHead @ getMediaUri0 env v ''out.min.css'' @ htmlBodyOpen0 @
     diff2html env diffContent @ htmlTail0"

definition registerDisposables0 :: "nat \<Rightarrow> Cleanup list \<Rightarrow> World0 \<Rightarrow> World0" where
  \<comment> \<open>Modelled from the spec: \<^verbatim>\<open>registerDisposables\<close> of the base class
      \<^verbatim>\<open>Disposable\<close> (\<^verbatim>\<open>utils/disposable\<close>), "register(action) appends".\<close>
  "registerDisposables0 i ds w =
     updInstance0 i (\<lambda>v. v\<lparr> disposables0 := disposables0 v @ ds \<rparr>) w"

definition newGitDiffView0 ::
  "Env \<Rightarrow> string \<Rightarrow> string \<Rightarrow> ViewColumn \<Rightarrow> World0 \<Rightarrow> nat \<times> World0" where
  "newGitDiffView0 env ep diffContent column w =
     (let i = length (instances0 w);
          v = \<lparr> disposables0 = [], disposed0 = False,
                panel0 = createWebviewPanel ''Diff Viewer'' ''Diff Viewer'' column True
                           [uriFile env (pathJoin env [ep, ''media''])],
                extensionPath0 = ep, isPanelVisible0 = True \<rparr>;
          w1 = w\<lparr> instances0 := instances0 w @ [v] \<rparr>;
          w2 = updPanel0 i (\<lambda>p. p\<lparr> webviewHtml := getHtmlForWebview0 env v diffContent \<rparr>) w1;
          w3 = updPanel0 i (\<lambda>p. p\<lparr> onDidDisposeAttached := True,
                                      onDidChangeViewStateAttached := True \<rparr>) w2
      in (i, registerDisposables0 i
               [ClearCurrentPanel, OnDidDisposeListener, OnDidChangeViewStateListener,
                ThePanel] w3))"

definition createOrShow0 ::
  "Env \<Rightarrow> string \<Rightarrow> string \<Rightarrow> ViewColumn option \<Rightarrow> World0 \<Rightarrow> World0" where
  "createOrShow0 env ep diffContent columnArg w =
     (let column = (case columnArg of None \<Rightarrow> ViewColumn_Beside | Some c \<Rightarrow> c) in
      case currentPanel0 w of
        Some i \<Rightarrow>
          updPanel0 i (\<lambda>p. p\<lparr> reveals := reveals p @ [column] \<rparr>)
            (updPanel0 i
               (\<lambda>p. p\<lparr> webviewHtml := getHtmlForWebview0 env (instances0 w ! i) diffContent \<rparr>)
               w)
      | None \<Rightarrow>
          (let (i, w') = newGitDiffView0 env ep diffContent column w
           in w'\<lparr> currentPanel0 := Some i \<rparr>))"

definition onDidChangeViewState0 :: "nat \<Rightarrow> World0 \<Rightarrow> World0" where
  "onDidChangeViewState0 i w =
     (let v = instances0 w ! i in
      if visible (panel0 v) \<noteq> isPanelVisible0 v
      then updInstance0 i (\<lambda>v'. v'\<lparr> isPanelVisible0 := visible (panel0 v) \<rparr>) w
      else w)"

section \<open>Notions used in the statements\<close>

subsection \<open>Live instances and sequences of calls\<close>

definition liveInstances0 :: "World0 \<Rightarrow> nat list" where
  "liveInstances0 w =
     filter (\<lambda>i. \<not> disposed0 (instances0 w ! i)) [0..<length (instances0 w)]"

text \<open>
  A sequence of \<^verbatim>\<open>createOrShow\<close> calls, each with its arguments, run from the
  state in which the slot is empty and nothing has been constructed.
\<close>

type_synonym Call = "string \<times> string \<times> string \<times> ViewColumn option"

definition calls :: "Env \<Rightarrow> Call list \<Rightarrow> World" where
  "calls env cs =
     foldl (\<lambda>w (ep, cmd, fp, columnArg). createOrShow env ep cmd fp columnArg w)
       initialWorld cs"

type_synonym Call0 = "string \<times> string \<times> ViewColumn option"

definition calls0 :: "Env \<Rightarrow> Call0 list \<Rightarrow> World0" where
  "calls0 env cs =
     foldl (\<lambda>w (ep, diffContent, columnArg). createOrShow0 env ep diffContent columnArg w)
       initialWorld0 cs"

text \<open>
  The part of an instance that decides whether it is live: its disposed flag, its
  registered disposables, and whether its panel is disposed and still reports its
  disposal to the view. In a consistent state the instance in the slot is as the
  constructor left it, and every other instance is as disposal leaves it.
\<close>

definition registered :: "Cleanup list" where
  "registered = [ClearCurrentPanel, OnDidDisposeListener, OnDidChangeViewStateListener, ThePanel]"

definition core :: "GitDiffView \<Rightarrow> bool \<times> Cleanup list \<times> bool \<times> bool" where
  "core v = (disposed v, disposables v, panelDisposed (panel v), onDidDisposeAttached (panel v))"

definition cores :: "World \<Rightarrow> (bool \<times> Cleanup list \<times> bool \<times> bool) list" where
  "cores w = map core (instances w)"

definition liveCore :: "bool \<times> Cleanup list \<times> bool \<times> bool" where
  "liveCore = (False, registered, False, True)"

definition deadCore :: "bool \<times> Cleanup list \<times> bool \<times> bool" where
  "deadCore = (True, registered, True, False)"

definition consistent :: "World \<Rightarrow> bool" where
  "consistent w \<longleftrightarrow>
     (\<forall>i. currentPanel w = Some i \<longrightarrow> i < length (cores w)) \<and>
     (\<forall>i < length (cores w).
        cores w ! i = (if currentPanel w = Some i then liveCore else deadCore))"

subsection \<open>Refreshes caused by a saved document\<close>

text \<open>
  The listener of instance \<open>i\<close> fires a refresh for a saved document when it leaves one
  more call of \<^verbatim>\<open>execShell\<close> pending, with the instance's command. \<open>saveAll\<close>
  delivers several saved documents in turn.
\<close>

definition firesRefresh :: "nat \<Rightarrow> string \<Rightarrow> World \<Rightarrow> bool" where
  "firesRefresh i uriPath w =
     (pending (onDidSaveTextDocument i uriPath w) =
        pending w @ [(i, gitCmd (instances w ! i))])"

definition saveAll :: "string list \<Rightarrow> World \<Rightarrow> World" where
  "saveAll uriPaths w = foldl (\<lambda>w' p. saveTextDocument p w') w uriPaths"

subsection \<open>Well-formed markup\<close>

text \<open>
  Whether a text is a well-formed document is judged by a scanner of its tags. It reads
  the text character by character. Outside a tag, \<^verbatim>\<open><\<close> opens one. Inside a
  tag, a double quote opens or closes an attribute value, and \<^verbatim>\<open>>\<close> outside a
  value ends the tag. A tag that starts with \<^verbatim>\<open>!\<close> (the document type, a
  comment) is passed over; an end tag must name the innermost open element, which it
  closes; a void element or a tag that ends in \<^verbatim>\<open>/\<close> opens nothing; any other
  tag opens an element. The state holds the open elements, innermost first, and the
  number of root elements opened so far; \<open>None\<close> is a scan that has failed.
\<close>

datatype Mode = InText | InTag string bool

type_synonym Scan = "Mode \<times> string list \<times> nat"

definition isVoid :: "string \<Rightarrow> bool" where
  "isVoid n \<longleftrightarrow> n \<in> set [''area'', ''base'', ''br'', ''col'', ''embed'', ''hr'', ''img'',
                          ''input'', ''link'', ''meta'', ''source'', ''track'', ''wbr'']"

definition isSpace :: "char \<Rightarrow> bool" where
  "isSpace c \<longleftrightarrow> c = CHR '' '' \<or> c = CHR 0x09 \<or> c = CHR 0x0A \<or> c = CHR 0x0D"

definition tagName :: "string \<Rightarrow> string" where
  "tagName t = takeWhile (\<lambda>c. \<not> isSpace c \<and> c \<noteq> CHR ''/'') t"

fun endOfTag :: "string \<Rightarrow> string list \<Rightarrow> nat \<Rightarrow> Scan option" where
  "endOfTag [] stack roots = None"
| "endOfTag (c # t) stack roots =
     (if c = CHR ''!'' then Some (InText, stack, roots)
      else if c = CHR ''/'' then
        (case stack of
           [] \<Rightarrow> None
         | opened # rest \<Rightarrow> if opened = tagName t then Some (InText, rest, roots) else None)
      else if tagName (c # t) = [] then None
      else if isVoid (tagName (c # t)) \<or> last (c # t) = CHR ''/'' then Some (InText, stack, roots)
      else Some (InText, tagName (c # t) # stack, if stack = [] then Suc roots else roots))"

fun scanChar :: "Scan option \<Rightarrow> char \<Rightarrow> Scan option" where
  "scanChar None c = None"
| "scanChar (Some (InText, stack, roots)) c =
     (if c = CHR ''<'' then Some (InTag [] False, stack, roots) else Some (InText, stack, roots))"
| "scanChar (Some (InTag acc quoted, stack, roots)) c =
     (if c = CHR 0x22 then Some (InTag (c # acc) (\<not> quoted), stack, roots)
      else if c = CHR ''>'' \<and> \<not> quoted then endOfTag (rev acc) stack roots
      else Some (InTag (c # acc) quoted, stack, roots))"

definition scan :: "Scan option \<Rightarrow> string \<Rightarrow> Scan option" where
  "scan st s = foldl scanChar st s"

text \<open>
  The states the templates pass through: before the first character; inside the quoted
  \<^verbatim>\<open>href\<close> of the first style sheet link, after the text \<open>u\<close>; in the
  \<^verbatim>\<open>app\<close> division of the body; in the body; and after the last end tag.
\<close>

definition atStart :: "Scan option" where
  "atStart = Some (InText, [], 0)"

definition inHref :: "string \<Rightarrow> Scan option" where
  \<open>inHref u = Some (InTag (rev u @ rev ''link rel="stylesheet" type="text/css" href="'') True,
                    [''head'', ''html''], 1)\<close>

definition inAppDiv :: "Scan option" where
  "inAppDiv = Some (InText, [''div'', ''body'', ''html''], 1)"

definition inBody :: "Scan option" where
  "inBody = Some (InText, [''body'', ''html''], 1)"

definition atEnd :: "Scan option" where
  "atEnd = Some (InText, [], 1)"

text \<open>
  A document is well-formed when its scan ends outside a tag with every element closed
  and exactly one root element. A fragment is balanced when its scan, started outside
  any element, ends outside a tag with every element it opened closed.
\<close>

definition wellFormedDocument :: "string \<Rightarrow> bool" where
  "wellFormedDocument s \<longleftrightarrow> scan atStart s = atEnd"

definition balancedFragment :: "string \<Rightarrow> bool" where
  "balancedFragment s \<longleftrightarrow>
     (case scan atStart s of
        Some (InText, [], roots) \<Rightarrow> True
      | _ \<Rightarrow> False)"

subsection \<open>Concrete inputs\<close>

text \<open>
  An environment, a diff (the one of the specification's example) and states to evaluate
  the statements on: the state after the first \<^verbatim>\<open>createOrShow\<close> with the command
  \<^verbatim>\<open>git diff\<close>, the instance that call constructs for a given command, and the
  state after the first call in the earlier design.
\<close>

definition sampleEnv :: Env where
  "sampleEnv = \<lparr> diff2html = (\<lambda>d. ''<pre>'' @ d @ ''</pre>''),
                  asWebviewUri = (\<lambda>u. ''https://file+.vscode-resource.vscode-cdn.net'' @ u),
                  uriFile = (\<lambda>p. p),
                  pathJoin = (\<lambda>ps. concat (map (\<lambda>p. ''/'' @ p) ps)) \<rparr>"

definition sampleDiff :: string where
  "sampleDiff = ''--- a'' @ nl @ ''+++ b'' @ nl @ ''@@ -1 +1 @@'' @ nl @ ''-old'' @ nl @ ''+new''"

definition sampleWorld :: "string \<Rightarrow> World" where
  "sampleWorld fp = createOrShow sampleEnv ''ext'' ''git diff'' fp None initialWorld"

definition sampleView :: "string \<Rightarrow> GitDiffView" where
  "sampleView cmd =
     instances (createOrShow sampleEnv ''ext'' cmd ''file.txt'' None initialWorld) ! 0"

definition sampleWorld0 :: World0 where
  "sampleWorld0 = createOrShow0 sampleEnv ''ext'' sampleDiff None initialWorld0"

section \<open>What each operation leaves unchanged\<close>

lemma cores_updInstance:
  assumes "core (f (instances w ! i)) = core (instances w ! i)"
  shows "cores (updInstance i f w) = cores w"
proof (cases "i < length (instances w)")
  case True
  then have "(map core (instances w))[i := core (instances w ! i)] = map core (instances w)"
    by (simp add: list_update_same_conv)
  with assms show ?thesis
    by (simp add: cores_def updInstance_def map_update)
next
  case False
  then have "length (instances w) \<le> i" by simp
  then show ?thesis by (simp add: cores_def updInstance_def list_update_beyond)
qed

lemma currentPanel_updInstance [simp]: "currentPanel (updInstance i f w) = currentPanel w"
  by (simp add: updInstance_def)

lemma cores_appendLine [simp]: "cores (appendLine i l w) = cores w"
  unfolding appendLine_def by (rule cores_updInstance) (simp add: core_def)

lemma currentPanel_appendLine [simp]: "currentPanel (appendLine i l w) = currentPanel w"
  by (simp add: appendLine_def)

lemma cores_refreshViewContent [simp]: "cores (refreshViewContent i w) = cores w"
  by (simp add: cores_def refreshViewContent_def)

lemma currentPanel_refreshViewContent [simp]: "currentPanel (refreshViewContent i w) = currentPanel w"
  by (simp add: refreshViewContent_def)

lemma cores_onDidSave [simp]: "cores (onDidSaveTextDocument i p w) = cores w"
  by (simp add: onDidSaveTextDocument_def Let_def)

lemma currentPanel_onDidSave [simp]: "currentPanel (onDidSaveTextDocument i p w) = currentPanel w"
  by (simp add: onDidSaveTextDocument_def Let_def)

lemma save_fold_frame:
  "cores (foldl (\<lambda>w' i. onDidSaveTextDocument i p w') w ls) = cores w \<and>
   currentPanel (foldl (\<lambda>w' i. onDidSaveTextDocument i p w') w ls) = currentPanel w"
  by (induction ls arbitrary: w) simp_all

lemma cores_saveTextDocument [simp]: "cores (saveTextDocument p w) = cores w"
  by (simp add: saveTextDocument_def save_fold_frame)

lemma currentPanel_saveTextDocument [simp]: "currentPanel (saveTextDocument p w) = currentPanel w"
  by (simp add: saveTextDocument_def save_fold_frame)

lemma cores_updPanel:
  assumes "panelDisposed (f (panel (instances w ! i))) = panelDisposed (panel (instances w ! i))"
      and "onDidDisposeAttached (f (panel (instances w ! i))) = onDidDisposeAttached (panel (instances w ! i))"
  shows "cores (updPanel i f w) = cores w"
  unfolding updPanel_def using assms by (intro cores_updInstance) (simp add: core_def)

lemma currentPanel_updPanel [simp]: "currentPanel (updPanel i f w) = currentPanel w"
  by (simp add: updPanel_def)

lemma cores_pending_update [simp]: "cores (w\<lparr> pending := ps \<rparr>) = cores w"
  by (simp add: cores_def)

lemma cores_onFulfilled [simp]: "cores (onFulfilled env i out w) = cores w"
  by (simp add: onFulfilled_def Let_def cores_updPanel)

lemma currentPanel_onFulfilled [simp]: "currentPanel (onFulfilled env i out w) = currentPanel w"
  by (simp add: onFulfilled_def Let_def)

lemma cores_settle [simp]: "cores (settle env k outcome w) = cores w"
  by (simp add: settle_def Let_def split: sum.split)

lemma currentPanel_settle [simp]: "currentPanel (settle env k outcome w) = currentPanel w"
  by (simp add: settle_def Let_def split: sum.split)

lemma cores_onDidChangeViewState [simp]: "cores (onDidChangeViewState i w) = cores w"
  by (simp add: onDidChangeViewState_def Let_def cores_updInstance core_def)

lemma currentPanel_onDidChangeViewState [simp]:
  "currentPanel (onDidChangeViewState i w) = currentPanel w"
  by (simp add: onDidChangeViewState_def Let_def)

lemma cores_changeViewState [simp]: "cores (changeViewState i vis w) = cores w"
  by (simp add: changeViewState_def Let_def cores_updPanel)

lemma currentPanel_changeViewState [simp]:
  "currentPanel (changeViewState i vis w) = currentPanel w"
  by (simp add: changeViewState_def Let_def)

lemma createOrShow_reuse:
  assumes "currentPanel w = Some i"
  shows "createOrShow env ep cmd fp columnArg w =
           refreshViewContent i
            (updInstance i (\<lambda>v. v\<lparr> filePath := fp \<rparr>)
              (updInstance i (\<lambda>v. v\<lparr> gitCmd := cmd \<rparr>)
                (reveal i (case columnArg of None \<Rightarrow> ViewColumn_Beside | Some c \<Rightarrow> c) w)))"
  using assms by (simp add: createOrShow_def)

lemma createOrShow_new:
  assumes "currentPanel w = None"
  shows "createOrShow env ep cmd fp columnArg w =
           w\<lparr> instances := instances w @
                  [\<lparr> disposables = registered, disposed = False,
                     panel = (createWebviewPanel ''Diff Viewer'' ''Diff Viewer''
                               (case columnArg of None \<Rightarrow> ViewColumn_Beside | Some c \<Rightarrow> c) True
                               [uriFile env (pathJoin env [ep, ''media''])])
                             \<lparr> onDidDisposeAttached := True,
                               onDidChangeViewStateAttached := True \<rparr>,
                     extensionPath = ep, isPanelVisible = True, gitCmd = cmd,
                     logger = [], filePath = fp \<rparr>],
              currentPanel := Some (length (instances w)),
              saveListeners := saveListeners w @ [length (instances w)],
              pending := pending w @ [(length (instances w), cmd)] \<rparr>"
  using assms
  by (simp add: createOrShow_def newGitDiffView_def Let_def refreshViewContent_def
      registerDisposables_def updPanel_def updInstance_def registered_def)

lemma cores_reveal [simp]: "cores (reveal i c w) = cores w"
  by (simp add: reveal_def cores_updPanel)

lemma currentPanel_reveal [simp]: "currentPanel (reveal i c w) = currentPanel w"
  by (simp add: reveal_def)

lemma consistent_frame:
  "cores w' = cores w \<Longrightarrow> currentPanel w' = currentPanel w \<Longrightarrow> consistent w' = consistent w"
  by (simp add: consistent_def)

lemma consistent_createOrShow:
  assumes "consistent w"
  shows "consistent (createOrShow env ep cmd fp columnArg w)"
proof (cases "currentPanel w")
  case (Some i)
  have "cores (createOrShow env ep cmd fp columnArg w) = cores w"
    by (simp add: createOrShow_reuse [OF Some] cores_updInstance core_def)
  moreover have "currentPanel (createOrShow env ep cmd fp columnArg w) = currentPanel w"
    by (simp add: createOrShow_reuse [OF Some])
  ultimately have "consistent (createOrShow env ep cmd fp columnArg w) = consistent w"
    by (rule consistent_frame)
  with assms show ?thesis by simp
next
  case None
  have c: "cores (createOrShow env ep cmd fp columnArg w) = cores w @ [liveCore]"
    by (simp add: createOrShow_new [OF None] cores_def core_def createWebviewPanel_def
        liveCore_def)
  have p: "currentPanel (createOrShow env ep cmd fp columnArg w) = Some (length (cores w))"
    by (simp add: createOrShow_new [OF None] cores_def)
  from assms None have old: "\<forall>i < length (cores w). cores w ! i = deadCore"
    by (simp add: consistent_def)
  show ?thesis
    unfolding consistent_def c p
  proof (intro conjI allI impI)
    fix i assume "Some (length (cores w)) = Some i"
    then show "i < length (cores w @ [liveCore])" by auto
  next
    fix i
    assume lt: "i < length (cores w @ [liveCore])"
    show "(cores w @ [liveCore]) ! i =
            (if Some (length (cores w)) = Some i then liveCore else deadCore)"
    proof (cases "i = length (cores w)")
      case True
      then show ?thesis by simp
    next
      case False
      with lt have "i < length (cores w)" by simp
      with old False show ?thesis by (simp add: nth_append)
    qed
  qed
qed

section \<open>Disposal runs the registered actions\<close>

lemma map_update_same: "map f (xs[i := g (xs ! i)]) = map f xs" if "f (g (xs ! i)) = f (xs ! i)"
proof (cases "i < length xs")
  case True
  with that show ?thesis by (simp add: map_update list_update_same_conv)
next
  case False
  then have "length xs \<le> i" by simp
  then show ?thesis by (simp add: list_update_beyond)
qed

lemma runCleanup_frame:
  "length (instances (runCleanup i w a)) = length (instances w) \<and>
   map disposed (instances (runCleanup i w a)) = map disposed (instances w) \<and>
   map disposables (instances (runCleanup i w a)) = map disposables (instances w) \<and>
   saveListeners (runCleanup i w a) = saveListeners w \<and>
   pending (runCleanup i w a) = pending w"
  by (cases a) (simp_all add: runCleanup_def updPanel_def updInstance_def map_update_same)

lemma foldl_runCleanup_frame:
  "length (instances (foldl (runCleanup i) w ds)) = length (instances w) \<and>
   map disposed (instances (foldl (runCleanup i) w ds)) = map disposed (instances w) \<and>
   map disposables (instances (foldl (runCleanup i) w ds)) = map disposables (instances w) \<and>
   saveListeners (foldl (runCleanup i) w ds) = saveListeners w \<and>
   pending (foldl (runCleanup i) w ds) = pending w"
  by (induction ds arbitrary: w) (simp_all add: runCleanup_frame)

lemma foldl_runCleanup_trace:
  "cleanupTrace (foldl (runCleanup i) w ds) = cleanupTrace w @ map (Pair i) ds"
  by (induction ds arbitrary: w) (simp_all add: runCleanup_def)

lemma disposed_nth_map:
  "i < length xs \<Longrightarrow> disposed (xs ! i) = map disposed xs ! i"
  by simp

lemma dispose_disposed:
  assumes "i < length (instances w)"
  shows "disposed (instances (dispose i w) ! i)"
proof (cases "disposed (instances w ! i)")
  case True
  then show ?thesis by (simp add: dispose_def)
next
  case False
  let ?w = "updInstance i (\<lambda>v. v\<lparr> disposed := True \<rparr>) w"
  let ?r = "foldl (runCleanup i) ?w (disposables (instances w ! i))"
  have len: "length (instances ?r) = length (instances w)"
    by (simp add: foldl_runCleanup_frame updInstance_def)
  have "map disposed (instances ?r) = map disposed (instances ?w)"
    by (simp add: foldl_runCleanup_frame)
  then have "map disposed (instances ?r) ! i = map disposed (instances ?w) ! i" by simp
  with assms len have "disposed (instances ?r ! i) = disposed (instances ?w ! i)"
    by (simp add: updInstance_def)
  with assms have "disposed (instances ?r ! i)" by (simp add: updInstance_def)
  with assms False show ?thesis by (simp add: dispose_def)
qed

lemma length_instances_dispose: "length (instances (dispose i w)) = length (instances w)"
  by (simp add: dispose_def foldl_runCleanup_frame updInstance_def)

lemma dispose_idem: "dispose i (dispose i w) = dispose i w"
proof (cases "i < length (instances w)")
  case True
  then have "disposed (instances (dispose i w) ! i)" by (rule dispose_disposed)
  then show ?thesis by (simp add: dispose_def [of i "dispose i w"])
next
  case False
  then show ?thesis by (simp add: dispose_def)
qed

section \<open>The save listener\<close>

lemma endsWith_iff_suffix: "endsWith s t \<longleftrightarrow> suffix t s"
proof
  assume "endsWith s t"
  then have "s = take (length s - length t) s @ t"
    by (metis append_take_drop_id endsWith_def)
  then show "suffix t s" by (rule suffixI)
next
  assume "suffix t s"
  then obtain u where "s = u @ t" by (auto simp: suffix_def)
  then show "endsWith s t" by (simp add: endsWith_def)
qed

lemma nth_update_proj:
  assumes "f (g (xs ! i)) = f (xs ! i)"
  shows "f (xs[i := g (xs ! i)] ! j) = f (xs ! j)"
proof (cases "i < length xs")
  case True
  with assms show ?thesis by (cases "i = j") simp_all
next
  case False
  then have "length xs \<le> i" by simp
  then show ?thesis by (simp add: list_update_beyond)
qed

lemma gitCmd_appendLine [simp]:
  "gitCmd (instances (appendLine i l w) ! j) = gitCmd (instances w ! j)"
  by (simp add: appendLine_def updInstance_def nth_update_proj)

lemma pending_appendLine [simp]: "pending (appendLine i l w) = pending w"
  by (simp add: appendLine_def updInstance_def)

lemma pending_onDidSave:
  "pending (onDidSaveTextDocument i p w) =
     pending w @ (if filePath (instances w ! i) = ''.'' \<or>
                     (p \<noteq> [] \<and> endsWith p (filePath (instances w ! i)))
                  then [(i, gitCmd (instances w ! i))] else [])"
  by (simp add: onDidSaveTextDocument_def Let_def refreshViewContent_def)

lemma sampleWorld_filePath: "filePath (instances (sampleWorld fp) ! 0) = fp"
  by (simp add: sampleWorld_def createOrShow_def newGitDiffView_def Let_def initialWorld_def
      refreshViewContent_def registerDisposables_def updPanel_def updInstance_def)

lemma filePath_onDidSave [simp]:
  "filePath (instances (onDidSaveTextDocument i p w) ! j) = filePath (instances w ! j)"
  by (simp add: onDidSaveTextDocument_def Let_def refreshViewContent_def appendLine_def
      updInstance_def nth_update_proj)

lemma filePath_save_fold:
  "filePath (instances (foldl (\<lambda>w' i. onDidSaveTextDocument i p w') w ls) ! j) =
   filePath (instances w ! j)"
  by (induction ls arbitrary: w) simp_all

lemma filePath_saveTextDocument [simp]:
  "filePath (instances (saveTextDocument p w) ! j) = filePath (instances w ! j)"
  by (simp add: saveTextDocument_def filePath_save_fold)

lemma filePath_saveAll [simp]:
  "filePath (instances (saveAll ps w) ! j) = filePath (instances w ! j)"
  unfolding saveAll_def by (induction ps arbitrary: w) simp_all

section \<open>Every reachable state is consistent\<close>

lemma cores_nth: "i < length (instances w) \<Longrightarrow> cores w ! i = core (instances w ! i)"
  by (simp add: cores_def)

lemma length_cores [simp]: "length (cores w) = length (instances w)"
  by (simp add: cores_def)

lemma dispose_registered:
  assumes "i < length (instances w)" and "\<not> disposed (instances w ! i)"
      and "disposables (instances w ! i) = registered"
  shows "currentPanel (dispose i w) = None"
    and "cores (dispose i w) = (cores w)[i := deadCore]"
    and "cleanupTrace (dispose i w) = cleanupTrace w @ map (Pair i) registered"
  using assms
  by (simp_all add: dispose_def registered_def runCleanup_def updPanel_def updInstance_def
      cores_def core_def deadCore_def map_update)

lemma consistent_dispose:
  assumes "consistent w"
  shows "consistent (dispose i w)"
proof (cases "i < length (instances w) \<and> \<not> disposed (instances w ! i)")
  case False
  then have "dispose i w = w" by (auto simp add: dispose_def)
  with assms show ?thesis by simp
next
  case True
  then have i: "i < length (instances w)" and live: "\<not> disposed (instances w ! i)" by simp_all
  from assms i have ci: "cores w ! i = (if currentPanel w = Some i then liveCore else deadCore)"
    by (simp add: consistent_def)
  from live i have "\<not> fst (cores w ! i)" by (simp add: cores_nth core_def)
  with ci have cur: "currentPanel w = Some i" and li: "cores w ! i = liveCore"
    by (auto simp add: deadCore_def split: if_splits)
  from li i have ds: "disposables (instances w ! i) = registered"
    by (simp add: cores_nth core_def liveCore_def)
  note d = dispose_registered [OF i live ds]
  show ?thesis
    unfolding consistent_def d
  proof (intro conjI allI impI)
    fix j :: nat assume "None = Some j"
    then show "j < length ((cores w)[i := deadCore])" by simp
  next
    fix j :: nat assume "j < length ((cores w)[i := deadCore])"
    then have j: "j < length (cores w)" by simp
    show "(cores w)[i := deadCore] ! j = (if None = Some j then liveCore else deadCore)"
    proof (cases "j = i")
      case True
      with j show ?thesis by simp
    next
      case False
      with cur have "currentPanel w \<noteq> Some j" by simp
      with assms j have "cores w ! j = deadCore" by (simp add: consistent_def)
      with False show ?thesis by simp
    qed
  qed
qed

lemma consistent_closePanel:
  assumes "consistent w"
  shows "consistent (closePanel i w)"
proof (cases "i < length (instances w) \<and> \<not> panelDisposed (panel (instances w ! i))")
  case False
  then have "closePanel i w = w" by (auto simp add: closePanel_def)
  with assms show ?thesis by simp
next
  case True
  then have i: "i < length (instances w)"
    and open_: "\<not> panelDisposed (panel (instances w ! i))" by simp_all
  let ?w = "updPanel i (\<lambda>p. p\<lparr> panelDisposed := True \<rparr>) w"
  from assms i have ci: "cores w ! i = (if currentPanel w = Some i then liveCore else deadCore)"
    by (simp add: consistent_def)
  from open_ i have "\<not> fst (snd (snd (cores w ! i)))" by (simp add: cores_nth core_def)
  with ci have cur: "currentPanel w = Some i" and li: "cores w ! i = liveCore"
    by (auto simp add: deadCore_def split: if_splits)
  from li i have v: "\<not> disposed (instances w ! i)" "disposables (instances w ! i) = registered"
    "onDidDisposeAttached (panel (instances w ! i))"
    by (simp_all add: cores_nth core_def liveCore_def)
  from i v have cp: "closePanel i w = dispose i ?w"
    using open_ by (simp add: closePanel_def)
  have i': "i < length (instances ?w)" using i by (simp add: updPanel_def updInstance_def)
  have v': "\<not> disposed (instances ?w ! i)" "disposables (instances ?w ! i) = registered"
    using i v by (simp_all add: updPanel_def updInstance_def)
  note d = dispose_registered [OF i' v']
  have cw: "(cores ?w)[i := deadCore] = (cores w)[i := deadCore]"
    using i by (simp add: cores_def updPanel_def updInstance_def map_update)
  have pw: "currentPanel ?w = currentPanel w" by simp
  show ?thesis
    unfolding cp consistent_def d cw
  proof (intro conjI allI impI)
    fix j :: nat assume "None = Some j"
    then show "j < length ((cores w)[i := deadCore])" by simp
  next
    fix j :: nat assume "j < length ((cores w)[i := deadCore])"
    then have j: "j < length (cores w)" by simp
    show "(cores w)[i := deadCore] ! j = (if None = Some j then liveCore else deadCore)"
    proof (cases "j = i")
      case True
      with j show ?thesis by simp
    next
      case False
      with cur have "currentPanel w \<noteq> Some j" by simp
      with assms j have "cores w ! j = deadCore" by (simp add: consistent_def)
      with False show ?thesis by simp
    qed
  qed
qed

lemma consistent_step: "consistent w \<Longrightarrow> consistent (step env w e)"
proof (cases e)
  case (CreateOrShow ep cmd fp col)
  assume "consistent w"
  then show ?thesis by (simp add: CreateOrShow consistent_createOrShow)
next
  case (SaveTextDocument p)
  assume "consistent w"
  then show ?thesis by (simp add: SaveTextDocument consistent_def)
next
  case (Settle k out)
  assume "consistent w"
  then show ?thesis by (simp add: Settle consistent_def)
next
  case (ChangeViewState i vis)
  assume "consistent w"
  then show ?thesis by (simp add: ChangeViewState consistent_def)
next
  case (ClosePanel i)
  assume "consistent w"
  then show ?thesis by (simp add: ClosePanel consistent_closePanel)
next
  case (Dispose i)
  assume "consistent w"
  then show ?thesis by (simp add: Dispose consistent_dispose)
qed

lemma consistent_initialWorld: "consistent initialWorld"
  by (simp add: consistent_def initialWorld_def cores_def)

lemma consistent_foldl_step: "consistent w \<Longrightarrow> consistent (foldl (step env) w es)"
  by (induction es arbitrary: w) (simp_all add: consistent_step)

lemma consistent_run: "consistent (run env es)"
  by (simp add: run_def consistent_foldl_step consistent_initialWorld)

section \<open>Live instances\<close>

lemma filter_eq_upt: "filter (\<lambda>j. j = i) [0..<n] = (if i < n then [i] else [])"
  by (induction n) auto

lemma liveInstances_consistent:
  assumes "consistent w"
  shows "liveInstances w = (case currentPanel w of None \<Rightarrow> [] | Some i \<Rightarrow> [i])"
proof -
  have eq: "filter (\<lambda>j. \<not> disposed (instances w ! j)) [0..<length (instances w)] =
            filter (\<lambda>j. currentPanel w = Some j) [0..<length (instances w)]"
  proof (rule filter_cong [OF refl])
    fix j assume "j \<in> set [0..<length (instances w)]"
    then have j: "j < length (instances w)" by simp
    with assms have "cores w ! j = (if currentPanel w = Some j then liveCore else deadCore)"
      by (simp add: consistent_def)
    with j show "(\<not> disposed (instances w ! j)) = (currentPanel w = Some j)"
      by (simp add: cores_nth core_def liveCore_def deadCore_def split: if_splits)
  qed
  show ?thesis
  proof (cases "currentPanel w")
    case None
    then show ?thesis by (simp add: liveInstances_def eq)
  next
    case (Some i)
    with assms have "i < length (instances w)" by (simp add: consistent_def)
    moreover have "(\<lambda>j. Some i = Some j) = (\<lambda>j. j = i)" by auto
    ultimately show ?thesis by (simp add: liveInstances_def eq Some filter_eq_upt)
  qed
qed

text \<open>
  In every state the program can reach, by calls, saved documents, settled refreshes,
  view-state changes, closed panels and disposals in any order, at most one instance is
  live, and it is the one in the slot.
\<close>

lemma length_liveInstances_run: "length (liveInstances (run env es)) \<le> 1"
  by (simp add: liveInstances_consistent [OF consistent_run] split: option.split)

lemma calls_shape:
  "(currentPanel (calls env cs) = None \<and> instances (calls env cs) = []) \<or>
   (currentPanel (calls env cs) = Some 0 \<and> length (instances (calls env cs)) = 1 \<and>
    \<not> disposed (instances (calls env cs) ! 0))"
proof (induction cs rule: rev_induct)
  case Nil
  show ?case by (simp add: calls_def initialWorld_def)
next
  case (snoc c cs)
  obtain ep cmd fp columnArg where c: "c = (ep, cmd, fp, columnArg)" by (cases c) auto
  have step: "calls env (cs @ [c]) = createOrShow env ep cmd fp columnArg (calls env cs)"
    by (simp add: calls_def c)
  from snoc show ?case
  proof
    assume "currentPanel (calls env cs) = None \<and> instances (calls env cs) = []"
    then show ?thesis by (simp add: step createOrShow_new)
  next
    assume a: "currentPanel (calls env cs) = Some 0 \<and> length (instances (calls env cs)) = 1 \<and>
               \<not> disposed (instances (calls env cs) ! 0)"
    then have "currentPanel (calls env cs) = Some 0" by simp
    from createOrShow_reuse [OF this] a show ?thesis
      by (simp add: step refreshViewContent_def updInstance_def reveal_def updPanel_def)
  qed
qed

lemma current_is_live:
  assumes "consistent w" and "currentPanel w = Some i"
  shows "i < length (instances w)" and "\<not> disposed (instances w ! i)"
    and "disposables (instances w ! i) = registered"
    and "\<not> panelDisposed (panel (instances w ! i))"
    and "onDidDisposeAttached (panel (instances w ! i))"
proof -
  from assms show i: "i < length (instances w)" by (simp add: consistent_def)
  with assms have "cores w ! i = liveCore" by (simp add: consistent_def)
  with i have "core (instances w ! i) = liveCore" by (simp add: cores_nth)
  then show "\<not> disposed (instances w ! i)" "disposables (instances w ! i) = registered"
    "\<not> panelDisposed (panel (instances w ! i))" "onDidDisposeAttached (panel (instances w ! i))"
    by (simp_all add: core_def liveCore_def)
qed

lemma closePanel_current:
  assumes "consistent w" and "currentPanel w = Some i"
  shows "currentPanel (closePanel i w) = None"
proof -
  note l = current_is_live [OF assms]
  let ?w = "updPanel i (\<lambda>p. p\<lparr> panelDisposed := True \<rparr>) w"
  from l have cp: "closePanel i w = dispose i ?w" by (simp add: closePanel_def)
  have "i < length (instances ?w)" "\<not> disposed (instances ?w ! i)"
       "disposables (instances ?w ! i) = registered"
    using l by (simp_all add: updPanel_def updInstance_def)
  then show ?thesis unfolding cp by (rule dispose_registered)
qed

section \<open>The concrete states\<close>

lemma run_single:
  "run sampleEnv [CreateOrShow ''ext'' ''git diff'' fp None] = sampleWorld fp"
  by (simp add: run_def sampleWorld_def)

lemma sampleWorld_facts:
  "currentPanel (sampleWorld fp) = Some 0"
  "length (instances (sampleWorld fp)) = 1"
  "pending (sampleWorld fp) = [(0, ''git diff'')]"
  "cleanupTrace (sampleWorld fp) = []"
  "saveListeners (sampleWorld fp) = [0]"
  by (simp_all add: sampleWorld_def createOrShow_new initialWorld_def)

section \<open>The visibility flag is framed\<close>

lemma map_instances_updInstance:
  "f (g (instances w ! i)) = f (instances w ! i) \<Longrightarrow>
   map f (instances (updInstance i g w)) = map f (instances w)"
  by (simp add: updInstance_def map_update_same)

lemma vis_updPanel [simp]:
  "map isPanelVisible (instances (updPanel i f w)) = map isPanelVisible (instances w)"
  by (simp add: updPanel_def map_instances_updInstance)

lemma vis_appendLine [simp]:
  "map isPanelVisible (instances (appendLine i l w)) = map isPanelVisible (instances w)"
  by (simp add: appendLine_def map_instances_updInstance)

lemma vis_refreshViewContent [simp]:
  "map isPanelVisible (instances (refreshViewContent i w)) = map isPanelVisible (instances w)"
  by (simp add: refreshViewContent_def)

lemma vis_onDidSave [simp]:
  "map isPanelVisible (instances (onDidSaveTextDocument i p w)) =
   map isPanelVisible (instances w)"
  by (simp add: onDidSaveTextDocument_def Let_def)

lemma vis_save_fold:
  "map isPanelVisible (instances (foldl (\<lambda>w' i. onDidSaveTextDocument i p w') w ls)) =
   map isPanelVisible (instances w)"
  by (induction ls arbitrary: w) simp_all

lemma vis_saveTextDocument [simp]:
  "map isPanelVisible (instances (saveTextDocument p w)) = map isPanelVisible (instances w)"
  by (simp add: saveTextDocument_def vis_save_fold)

lemma vis_settle [simp]:
  "map isPanelVisible (instances (settle env k outcome w)) = map isPanelVisible (instances w)"
  by (simp add: settle_def onFulfilled_def Let_def split: sum.split)

lemma vis_runCleanup [simp]:
  "map isPanelVisible (instances (runCleanup i w a)) = map isPanelVisible (instances w)"
  by (cases a) (simp_all add: runCleanup_def)

lemma vis_foldl_runCleanup [simp]:
  "map isPanelVisible (instances (foldl (runCleanup i) w ds)) = map isPanelVisible (instances w)"
  by (induction ds arbitrary: w) simp_all

lemma vis_dispose [simp]:
  "map isPanelVisible (instances (dispose i w)) = map isPanelVisible (instances w)"
  by (simp add: dispose_def map_instances_updInstance)

lemma vis_closePanel [simp]:
  "map isPanelVisible (instances (closePanel i w)) = map isPanelVisible (instances w)"
  by (simp add: closePanel_def Let_def)

lemma vis_createOrShow:
  "take (length (instances w))
     (map isPanelVisible (instances (createOrShow env ep cmd fp columnArg w))) =
   map isPanelVisible (instances w)"
proof (cases "currentPanel w")
  case None
  then show ?thesis by (simp add: createOrShow_new)
next
  case (Some i)
  then show ?thesis
    by (simp add: createOrShow_reuse reveal_def map_instances_updInstance)
qed

lemma vis_changeViewState_other:
  assumes "j \<noteq> i"
  shows "isPanelVisible (instances (changeViewState i vis w) ! j) =
         isPanelVisible (instances w ! j)"
  using assms
  by (simp add: changeViewState_def onDidChangeViewState_def Let_def updPanel_def
      updInstance_def)

lemma nth_of_take_map:
  assumes "take n (map f ys) = map f xs" and "n = length xs" and "j < n"
  shows "f (ys ! j) = f (xs ! j)"
proof -
  from assms have "take n (map f ys) ! j = map f xs ! j" by simp
  moreover from assms have "j < length (map f ys)"
    by (metis length_map length_take min_less_iff_conj)
  ultimately show ?thesis using assms by simp
qed

lemma vis_step:
  assumes "j < length (instances w)" and "\<And>vis. e \<noteq> ChangeViewState j vis"
  shows "isPanelVisible (instances (step env w e) ! j) = isPanelVisible (instances w ! j)"
proof (cases e)
  case (CreateOrShow ep cmd fp col)
  show ?thesis
    unfolding CreateOrShow step.simps
    by (rule nth_of_take_map [OF vis_createOrShow refl assms(1)])
next
  case (ChangeViewState i vis)
  with assms(2) have "j \<noteq> i" by auto
  then show ?thesis by (simp add: ChangeViewState vis_changeViewState_other)
next
  case (SaveTextDocument p)
  have "map isPanelVisible (instances (step env w e)) ! j = map isPanelVisible (instances w) ! j"
    by (simp add: SaveTextDocument)
  moreover have "length (instances (step env w e)) = length (instances w)"
    using vis_saveTextDocument [of p w] unfolding SaveTextDocument step.simps
    by (metis length_map)
  ultimately show ?thesis using assms(1) by simp
next
  case (Settle k out)
  have "map isPanelVisible (instances (step env w e)) ! j = map isPanelVisible (instances w) ! j"
    by (simp add: Settle)
  moreover have "length (instances (step env w e)) = length (instances w)"
    using vis_settle [of env k out w] unfolding Settle step.simps
    by (metis length_map)
  ultimately show ?thesis using assms(1) by simp
next
  case (ClosePanel i)
  have "map isPanelVisible (instances (step env w e)) ! j = map isPanelVisible (instances w) ! j"
    by (simp add: ClosePanel)
  moreover have "length (instances (step env w e)) = length (instances w)"
    using vis_closePanel [of i w] unfolding ClosePanel step.simps
    by (metis length_map)
  ultimately show ?thesis using assms(1) by simp
next
  case (Dispose i)
  have "map isPanelVisible (instances (step env w e)) ! j = map isPanelVisible (instances w) ! j"
    by (simp add: Dispose)
  moreover have "length (instances (step env w e)) = length (instances w)"
    by (simp add: Dispose length_instances_dispose)
  ultimately show ?thesis using assms(1) by simp
qed

lemma sampleWorld_panel:
  "\<not> panelDisposed (panel (instances (sampleWorld fp) ! 0))"
  "onDidChangeViewStateAttached (panel (instances (sampleWorld fp) ! 0))"
  "isPanelVisible (instances (sampleWorld fp) ! 0)"
  by (simp_all add: sampleWorld_def createOrShow_new initialWorld_def createWebviewPanel_def)

section \<open>Scanning the template\<close>

lemma scan_append: "scan st (a @ b) = scan (scan st a) b"
  by (simp add: scan_def)

lemma scan_Nil [simp]: "scan st [] = st"
  by (simp add: scan_def)

lemma scan_Cons: "scan st (c # s) = scan (scanChar st c) s"
  by (simp add: scan_def)

lemma scan_None [simp]: "scan None s = None"
  by (induction s) (simp_all add: scan_Cons)

lemma scan_text:
  "CHR ''<'' \<notin> set s \<Longrightarrow> scan (Some (InText, stack, roots)) s = Some (InText, stack, roots)"
  by (induction s) (auto simp add: scan_Cons)

lemma scan_quoted:
  "CHR 0x22 \<notin> set u \<Longrightarrow>
   scan (Some (InTag acc True, stack, roots)) u = Some (InTag (rev u @ acc) True, stack, roots)"
  by (induction u arbitrary: acc) (auto simp add: scan_Cons)

lemma endOfTag_extend:
  assumes "endOfTag t stack roots = Some (m, stack', roots')" and "base \<noteq> []"
  shows "endOfTag t (stack @ base) r = Some (m, stack' @ base, r)"
proof (cases t)
  case Nil
  with assms show ?thesis by simp
next
  case (Cons c t')
  with assms show ?thesis
    by (cases stack) (auto split: if_splits)
qed

lemma scanChar_extend:
  assumes "scanChar (Some (m, stack, roots)) c = Some (m', stack', roots')" and "base \<noteq> []"
  shows "scanChar (Some (m, stack @ base, r)) c = Some (m', stack' @ base, r)"
proof (cases m)
  case InText
  with assms show ?thesis by (auto split: if_splits)
next
  case (InTag acc quoted)
  show ?thesis
  proof (cases "c = CHR ''>'' \<and> \<not> quoted")
    case True
    with assms InTag have "endOfTag (rev acc) stack roots = Some (m', stack', roots')" by simp
    from endOfTag_extend [OF this assms(2)] True InTag show ?thesis by simp
  next
    case False
    with assms InTag show ?thesis by (auto split: if_splits)
  qed
qed

lemma scan_extend:
  assumes "scan (Some (m, stack, roots)) s = Some (m', stack', roots')" and "base \<noteq> []"
  shows "scan (Some (m, stack @ base, r)) s = Some (m', stack' @ base, r)"
  using assms
proof (induction s arbitrary: m stack roots)
  case Nil
  then show ?case by simp
next
  case (Cons c s)
  show ?case
  proof (cases "scanChar (Some (m, stack, roots)) c")
    case None
    with Cons.prems show ?thesis by (simp add: scan_Cons)
  next
    case (Some st)
    obtain m1 stack1 roots1 where st: "st = (m1, stack1, roots1)" by (cases st) auto
    from Cons.prems Some st
    have "scan (Some (m1, stack1, roots1)) s = Some (m', stack', roots')"
      by (simp add: scan_Cons)
    from Cons.IH [OF this Cons.prems(2)]
    have "scan (Some (m1, stack1 @ base, r)) s = Some (m', stack' @ base, r)" .
    moreover from Some st Cons.prems(2)
    have "scanChar (Some (m, stack @ base, r)) c = Some (m1, stack1 @ base, r)"
      by (simp add: scanChar_extend)
    ultimately show ?thesis by (simp add: scan_Cons)
  qed
qed

lemma scan_balancedFragment:
  assumes "balancedFragment s" and "base \<noteq> []"
  shows "scan (Some (InText, base, r)) s = Some (InText, base, r)"
proof -
  have "\<exists>roots. scan (Some (InText, [], 0)) s = Some (InText, [], roots)"
  proof (cases "scan (Some (InText, [], 0)) s")
    case None
    with assms(1) show ?thesis by (simp add: balancedFragment_def atStart_def)
  next
    case (Some st)
    obtain m stack roots where st: "st = (m, stack, roots)" by (cases st) auto
    from assms(1) Some st show ?thesis
      by (cases m; cases stack) (simp_all add: balancedFragment_def atStart_def)
  qed
  then obtain roots where "scan (Some (InText, [], 0)) s = Some (InText, [], roots)" ..
  from scan_extend [OF this assms(2), of r] show ?thesis by simp
qed

lemma scan_htmlHead: "scan atStart htmlHead = inHref []"
  by (simp add: atStart_def inHref_def scan_def htmlHead_def nl_def tab_def tagName_def
      isSpace_def isVoid_def)

lemma scan_uri: "CHR 0x22 \<notin> set u \<Longrightarrow> scan (inHref []) u = inHref u"
  by (simp add: inHref_def scan_quoted)

lemma scan_htmlBodyOpen: "scan (inHref u) htmlBodyOpen = inAppDiv"
  by (simp add: inHref_def inAppDiv_def scan_def htmlBodyOpen_def htmlLinks_def nl_def tab_def
      tagName_def isSpace_def isVoid_def)

lemma scan_fragment: "balancedFragment f \<Longrightarrow> scan inAppDiv f = inAppDiv"
  by (simp add: inAppDiv_def scan_balancedFragment)

lemma scan_htmlCmdOpen: "scan inAppDiv htmlCmdOpen = inAppDiv"
  by (simp add: inAppDiv_def scan_def htmlCmdOpen_def nl_def tab_def tagName_def isSpace_def
      isVoid_def)

lemma scan_cmd: "CHR ''<'' \<notin> set c \<Longrightarrow> scan inAppDiv c = inAppDiv"
  by (simp add: inAppDiv_def scan_text)

lemma scan_htmlTail: "scan inAppDiv htmlTail = atEnd"
  by (simp add: inAppDiv_def atEnd_def scan_def htmlTail_def nl_def tab_def tagName_def
      isSpace_def isVoid_def)

lemma scan_to_fragment:
  assumes "CHR 0x22 \<notin> set (getMediaUri env v ''out.min.css'')"
  shows "scan atStart (htmlHead @ getMediaUri env v ''out.min.css'' @ htmlBodyOpen) = inAppDiv"
  by (simp only: scan_append scan_htmlHead scan_uri [OF assms] scan_htmlBodyOpen)

lemma scan_after_fragment:
  assumes "CHR 0x22 \<notin> set (getMediaUri env v ''out.min.css'')"
      and "balancedFragment (diff2html env diffContent)"
  shows "scan atStart
           (htmlHead @ getMediaUri env v ''out.min.css'' @ htmlBodyOpen @
            diff2html env diffContent @ htmlCmdOpen) = inAppDiv"
  by (simp only: scan_append scan_htmlHead scan_uri [OF assms(1)] scan_htmlBodyOpen
      scan_fragment [OF assms(2)] scan_htmlCmdOpen)

lemma sampleView_fields:
  "gitCmd (sampleView cmd) = cmd"
  "getMediaUri sampleEnv (sampleView cmd) ''out.min.css'' =
     ''https://file+.vscode-resource.vscode-cdn.net/ext/media/out.min.css''"
  by (simp_all add: sampleView_def createOrShow_new initialWorld_def getMediaUri_def
      getUri_def sampleEnv_def)

lemma sample_fragment: "balancedFragment (diff2html sampleEnv sampleDiff)"
  by (simp add: balancedFragment_def atStart_def sampleEnv_def sampleDiff_def nl_def scan_def
      tagName_def isSpace_def isVoid_def)

section \<open>The earlier design\<close>

lemma createOrShow0_reuse:
  assumes "currentPanel0 w = Some i"
  shows "createOrShow0 env ep diffContent columnArg w =
           updPanel0 i (\<lambda>p. p\<lparr> reveals := reveals p @
                [case columnArg of None \<Rightarrow> ViewColumn_Beside | Some c \<Rightarrow> c] \<rparr>)
            (updPanel0 i
               (\<lambda>p. p\<lparr> webviewHtml := getHtmlForWebview0 env (instances0 w ! i) diffContent \<rparr>)
               w)"
  using assms by (simp add: createOrShow0_def)

lemma createOrShow0_new:
  assumes "currentPanel0 w = None"
  shows "currentPanel0 (createOrShow0 env ep diffContent columnArg w) =
           Some (length (instances0 w))"
    and "length (instances0 (createOrShow0 env ep diffContent columnArg w)) =
           Suc (length (instances0 w))"
    and "take (length (instances0 w))
           (instances0 (createOrShow0 env ep diffContent columnArg w)) = instances0 w"
    and "isPanelVisible0 (instances0 (createOrShow0 env ep diffContent columnArg w) !
           length (instances0 w))"
    and "\<not> disposed0 (instances0 (createOrShow0 env ep diffContent columnArg w) !
           length (instances0 w))"
  using assms
  by (simp_all add: createOrShow0_def newGitDiffView0_def Let_def registerDisposables0_def
      updPanel0_def updInstance0_def)

lemma map_instances0_updInstance0:
  "f (g (instances0 w ! i)) = f (instances0 w ! i) \<Longrightarrow>
   map f (instances0 (updInstance0 i g w)) = map f (instances0 w)"
  by (simp add: updInstance0_def map_update_same)

lemma updPanel0_frame [simp]:
  "currentPanel0 (updPanel0 i f w) = currentPanel0 w"
  "length (instances0 (updPanel0 i f w)) = length (instances0 w)"
  "map isPanelVisible0 (instances0 (updPanel0 i f w)) = map isPanelVisible0 (instances0 w)"
  "map disposed0 (instances0 (updPanel0 i f w)) = map disposed0 (instances0 w)"
  by (simp_all add: updPanel0_def map_instances0_updInstance0) (simp_all add: updInstance0_def)

lemma createOrShow0_reuse_frame:
  assumes "currentPanel0 w = Some i"
  shows "currentPanel0 (createOrShow0 env ep diffContent columnArg w) = Some i"
    and "length (instances0 (createOrShow0 env ep diffContent columnArg w)) =
           length (instances0 w)"
    and "map isPanelVisible0 (instances0 (createOrShow0 env ep diffContent columnArg w)) =
           map isPanelVisible0 (instances0 w)"
    and "map disposed0 (instances0 (createOrShow0 env ep diffContent columnArg w)) =
           map disposed0 (instances0 w)"
  using assms by (simp_all add: createOrShow0_reuse [OF assms])

lemma calls0_shape:
  "(currentPanel0 (calls0 env cs) = None \<and> instances0 (calls0 env cs) = []) \<or>
   (currentPanel0 (calls0 env cs) = Some 0 \<and> length (instances0 (calls0 env cs)) = 1)"
proof (induction cs rule: rev_induct)
  case Nil
  show ?case by (simp add: calls0_def initialWorld0_def)
next
  case (snoc c cs)
  obtain ep diffContent columnArg where c: "c = (ep, diffContent, columnArg)"
    by (cases c) auto
  have step: "calls0 env (cs @ [c]) = createOrShow0 env ep diffContent columnArg (calls0 env cs)"
    by (simp add: calls0_def c)
  from snoc show ?case
  proof
    assume "currentPanel0 (calls0 env cs) = None \<and> instances0 (calls0 env cs) = []"
    then show ?thesis by (simp add: step createOrShow0_new)
  next
    assume "currentPanel0 (calls0 env cs) = Some 0 \<and> length (instances0 (calls0 env cs)) = 1"
    then show ?thesis by (simp add: step createOrShow0_reuse_frame)
  qed
qed

lemma scan_htmlBodyOpen0: "scan (inHref u) htmlBodyOpen0 = inBody"
  by (simp add: inHref_def inBody_def scan_def htmlBodyOpen0_def htmlLinks_def nl_def tab_def
      tagName_def isSpace_def isVoid_def)

lemma scan_fragment0: "balancedFragment f \<Longrightarrow> scan inBody f = inBody"
  by (simp add: inBody_def scan_balancedFragment)

lemma scan_htmlTail0: "scan inBody htmlTail0 = atEnd"
  by (simp add: inBody_def atEnd_def scan_def htmlTail0_def nl_def tab_def tagName_def
      isSpace_def isVoid_def)

lemma length_liveInstances0: "length (liveInstances0 w) \<le> length (instances0 w)"
  unfolding liveInstances0_def by (rule order_trans [OF length_filter_le]) simp

lemma length_liveInstances: "length (liveInstances w) \<le> length (instances w)"
  unfolding liveInstances_def by (rule order_trans [OF length_filter_le]) simp

lemma vis0_createOrShow0:
  assumes "j < length (instances0 w)"
  shows "isPanelVisible0 (instances0 (createOrShow0 env ep diffContent columnArg w) ! j) =
         isPanelVisible0 (instances0 w ! j)"
proof (cases "currentPanel0 w")
  case None
  have "instances0 (createOrShow0 env ep diffContent columnArg w) ! j =
        take (length (instances0 w))
          (instances0 (createOrShow0 env ep diffContent columnArg w)) ! j"
    using assms by simp
  then show ?thesis by (simp add: createOrShow0_new(3) [OF None])
next
  case (Some i)
  note f = createOrShow0_reuse_frame [OF Some, of env ep diffContent columnArg]
  have "map isPanelVisible0 (instances0 (createOrShow0 env ep diffContent columnArg w)) ! j =
        map isPanelVisible0 (instances0 w) ! j"
    by (simp add: f(3))
  with assms f(2) show ?thesis by simp
qed

lemma sampleWorld0_facts:
  "currentPanel0 sampleWorld0 = Some 0"
  "length (instances0 sampleWorld0) = 1"
  by (simp_all add: sampleWorld0_def createOrShow0_new initialWorld0_def)

lemma sampleWorld0_uri:
  "getMediaUri0 sampleEnv (instances0 sampleWorld0 ! 0) ''out.min.css'' =
     ''https://file+.vscode-resource.vscode-cdn.net/ext/media/out.min.css''"
  by (simp add: sampleWorld0_def createOrShow0_def newGitDiffView0_def Let_def
      registerDisposables0_def updPanel0_def updInstance0_def initialWorld0_def
      getMediaUri0_def getUri0_def sampleEnv_def)

section \<open>The singleton\<close>

text \<open>
  C1. Started with an empty slot, any sequence of \<^verbatim>\<open>createOrShow\<close> calls leaves
  at most one instance that is not disposed; indeed it constructs at most one instance
  at all. Whenever the slot is occupied, whatever the state otherwise,
  \<^verbatim>\<open>createOrShow\<close> keeps the instance in the slot and constructs nothing. The same
  holds for the earlier design.
\<close>

theorem createOrShow_singleton:
  "length (liveInstances (calls env cs)) \<le> 1 \<and>
   length (instances (calls env cs)) \<le> 1 \<and>
   (currentPanel w = Some i \<longrightarrow>
      currentPanel (createOrShow env ep cmd fp columnArg w) = Some i \<and>
      length (instances (createOrShow env ep cmd fp columnArg w)) = length (instances w)) \<and>
   length (liveInstances0 (calls0 env cs0)) \<le> 1 \<and>
   length (instances0 (calls0 env cs0)) \<le> 1 \<and>
   (currentPanel0 w0 = Some i0 \<longrightarrow>
      currentPanel0 (createOrShow0 env ep diffContent columnArg w0) = Some i0 \<and>
      length (instances0 (createOrShow0 env ep diffContent columnArg w0)) =
        length (instances0 w0))"
proof -
  have a: "length (instances (calls env cs)) \<le> 1"
    using calls_shape [of env cs] by auto
  have b: "length (instances0 (calls0 env cs0)) \<le> 1"
    using calls0_shape [of env cs0] by auto
  have c: "currentPanel w = Some i \<longrightarrow>
      currentPanel (createOrShow env ep cmd fp columnArg w) = Some i \<and>
      length (instances (createOrShow env ep cmd fp columnArg w)) = length (instances w)"
    by (simp add: createOrShow_reuse refreshViewContent_def updInstance_def reveal_def
        updPanel_def)
  have d: "currentPanel0 w0 = Some i0 \<longrightarrow>
      currentPanel0 (createOrShow0 env ep diffContent columnArg w0) = Some i0 \<and>
      length (instances0 (createOrShow0 env ep diffContent columnArg w0)) =
        length (instances0 w0)"
    by (simp add: createOrShow0_reuse_frame)
  from a have a': "length (liveInstances (calls env cs)) \<le> 1"
    by (rule order_trans [OF length_liveInstances])
  from b have b': "length (liveInstances0 (calls0 env cs0)) \<le> 1"
    by (rule order_trans [OF length_liveInstances0])
  from a a' b b' c d show ?thesis by blast
qed

theorem createOrShow_singleton_witness:
  "currentPanel (sampleWorld ''a.txt'') = Some 0 \<and>
   currentPanel (createOrShow sampleEnv ''ext'' ''git diff'' ''b.txt'' None
                   (sampleWorld ''a.txt'')) = Some 0 \<and>
   length (instances (createOrShow sampleEnv ''ext'' ''git diff'' ''b.txt'' None
                   (sampleWorld ''a.txt''))) = 1 \<and>
   currentPanel0 sampleWorld0 = Some 0 \<and>
   currentPanel0 (createOrShow0 sampleEnv ''ext'' ''+new'' None sampleWorld0) = Some 0 \<and>
   length (instances0 (createOrShow0 sampleEnv ''ext'' ''+new'' None sampleWorld0)) = 1"
  using createOrShow_singleton [where env = sampleEnv and cs = "[]" and cs0 = "[]"
      and w = "sampleWorld ''a.txt''" and i = 0 and ep = "''ext''" and cmd = "''git diff''"
      and fp = "''b.txt''" and columnArg = None and ?w0.0 = sampleWorld0 and ?i0.0 = 0
      and diffContent = "''+new''"]
  by (simp add: sampleWorld_facts sampleWorld0_facts)

section \<open>Which saved documents refresh the view\<close>

text \<open>
  C2, as amended. The listener of instance \<open>i\<close> answers a saved document with a
  refresh (one more pending call of \<^verbatim>\<open>execShell\<close>, with the instance's current
  command) if and only if the watched path is \<^verbatim>\<open>"."\<close>, or the saved path is not
  empty and ends with the watched path. The source guards the suffix test with
  \<^verbatim>\<open>uri.path &&\<close>, so an empty saved path matches no watched path but
  \<^verbatim>\<open>"."\<close>.
\<close>

theorem save_refresh_rule:
  "firesRefresh i savedPath w \<longleftrightarrow>
     filePath (instances w ! i) = ''.'' \<or>
     (savedPath \<noteq> [] \<and> suffix (filePath (instances w ! i)) savedPath)"
  by (simp add: firesRefresh_def pending_onDidSave endsWith_iff_suffix)

text \<open>
  The examples of the specification: \<^verbatim>\<open>/repo/sub/file.txt\<close> against
  \<^verbatim>\<open>file.txt\<close> refreshes, \<^verbatim>\<open>/repo/other.txt\<close> against it does not, and
  against \<^verbatim>\<open>"."\<close> it does.
\<close>

theorem save_refresh_rule_witness:
  "firesRefresh 0 ''/repo/sub/file.txt'' (sampleWorld ''file.txt'') \<and>
   \<not> firesRefresh 0 ''/repo/other.txt'' (sampleWorld ''file.txt'') \<and>
   firesRefresh 0 ''/repo/other.txt'' (sampleWorld ''.'')"
  using save_refresh_rule [of 0 "''/repo/sub/file.txt''" "sampleWorld ''file.txt''"]
        save_refresh_rule [of 0 "''/repo/other.txt''" "sampleWorld ''file.txt''"]
        save_refresh_rule [of 0 "''/repo/other.txt''" "sampleWorld ''.''"]
  by (simp add: sampleWorld_filePath suffix_def)

text \<open>
  C2 as stated, without the guard, fails where both paths are empty: the empty string
  ends with the empty string, and the listener does not refresh.
\<close>

theorem save_refresh_rule_counterexample:
  "\<not> (firesRefresh 0 [] (sampleWorld []) \<longleftrightarrow>
        filePath (instances (sampleWorld []) ! 0) = ''.'' \<or>
        suffix (filePath (instances (sampleWorld []) ! 0)) [])"
  by (simp add: firesRefresh_def pending_onDidSave sampleWorld_filePath)

section \<open>Failed refresh\<close>

text \<open>
  C3. If the promise of \<^verbatim>\<open>execShell\<close> is rejected, nothing of any instance
  changes, in particular no panel's document: whichever pending refresh is the rejected
  one, the instances after the rejection are the instances before it. A refresh that is
  requested and then rejected leaves the whole program state as it was before the
  request.
\<close>

theorem rejected_refresh_keeps_content:
  "instances (settle env k (Inl err) w) = instances w \<and>
   settle env (length (pending w)) (Inl err) (refreshViewContent i w) = w"
  by (simp add: settle_def refreshViewContent_def)

section \<open>Reuse of the live instance\<close>

text \<open>
  C4. When \<^verbatim>\<open>createOrShow\<close> finds the slot occupied by instance \<open>i\<close>, it stores
  the new command and the new watched path in that instance, requests a refresh at once
  (a pending call of \<^verbatim>\<open>execShell\<close> with the new command), and asks the host to
  reveal the instance's panel in the requested column (\<^verbatim>\<open>Beside\<close> when none is
  given). It creates no object: the instances, and with them the panels, are as many as
  before, the slot still holds \<open>i\<close>, no save listener is added, and the document the
  panel shows is not touched by the call itself. In the earlier design, whose refresh
  source is the diff text itself, the call renders the new text into the panel at once
  and reveals the panel, and creates no object either.
\<close>

theorem createOrShow_reuses_instance:
  "(currentPanel w = Some i \<and> i < length (instances w) \<longrightarrow>
      gitCmd (instances (createOrShow env ep cmd fp columnArg w) ! i) = cmd \<and>
      filePath (instances (createOrShow env ep cmd fp columnArg w) ! i) = fp \<and>
      pending (createOrShow env ep cmd fp columnArg w) = pending w @ [(i, cmd)] \<and>
      reveals (panel (instances (createOrShow env ep cmd fp columnArg w) ! i)) =
        reveals (panel (instances w ! i)) @
          [case columnArg of None \<Rightarrow> ViewColumn_Beside | Some c \<Rightarrow> c] \<and>
      length (instances (createOrShow env ep cmd fp columnArg w)) = length (instances w) \<and>
      currentPanel (createOrShow env ep cmd fp columnArg w) = Some i \<and>
      saveListeners (createOrShow env ep cmd fp columnArg w) = saveListeners w \<and>
      webviewHtml (panel (instances (createOrShow env ep cmd fp columnArg w) ! i)) =
        webviewHtml (panel (instances w ! i))) \<and>
   (currentPanel0 w0 = Some i0 \<and> i0 < length (instances0 w0) \<longrightarrow>
      webviewHtml (panel0 (instances0 (createOrShow0 env ep diffContent columnArg w0) ! i0)) =
        getHtmlForWebview0 env (instances0 w0 ! i0) diffContent \<and>
      reveals (panel0 (instances0 (createOrShow0 env ep diffContent columnArg w0) ! i0)) =
        reveals (panel0 (instances0 w0 ! i0)) @
          [case columnArg of None \<Rightarrow> ViewColumn_Beside | Some c \<Rightarrow> c] \<and>
      length (instances0 (createOrShow0 env ep diffContent columnArg w0)) =
        length (instances0 w0) \<and>
      currentPanel0 (createOrShow0 env ep diffContent columnArg w0) = Some i0)"
proof (rule conjI)
  show "currentPanel w = Some i \<and> i < length (instances w) \<longrightarrow>
      gitCmd (instances (createOrShow env ep cmd fp columnArg w) ! i) = cmd \<and>
      filePath (instances (createOrShow env ep cmd fp columnArg w) ! i) = fp \<and>
      pending (createOrShow env ep cmd fp columnArg w) = pending w @ [(i, cmd)] \<and>
      reveals (panel (instances (createOrShow env ep cmd fp columnArg w) ! i)) =
        reveals (panel (instances w ! i)) @
          [case columnArg of None \<Rightarrow> ViewColumn_Beside | Some c \<Rightarrow> c] \<and>
      length (instances (createOrShow env ep cmd fp columnArg w)) = length (instances w) \<and>
      currentPanel (createOrShow env ep cmd fp columnArg w) = Some i \<and>
      saveListeners (createOrShow env ep cmd fp columnArg w) = saveListeners w \<and>
      webviewHtml (panel (instances (createOrShow env ep cmd fp columnArg w) ! i)) =
        webviewHtml (panel (instances w ! i))"
    by (simp add: createOrShow_reuse refreshViewContent_def updInstance_def reveal_def
        updPanel_def)
next
  show "currentPanel0 w0 = Some i0 \<and> i0 < length (instances0 w0) \<longrightarrow>
      webviewHtml (panel0 (instances0 (createOrShow0 env ep diffContent columnArg w0) ! i0)) =
        getHtmlForWebview0 env (instances0 w0 ! i0) diffContent \<and>
      reveals (panel0 (instances0 (createOrShow0 env ep diffContent columnArg w0) ! i0)) =
        reveals (panel0 (instances0 w0 ! i0)) @
          [case columnArg of None \<Rightarrow> ViewColumn_Beside | Some c \<Rightarrow> c] \<and>
      length (instances0 (createOrShow0 env ep diffContent columnArg w0)) =
        length (instances0 w0) \<and>
      currentPanel0 (createOrShow0 env ep diffContent columnArg w0) = Some i0"
    by (simp add: createOrShow0_reuse updPanel0_def updInstance0_def)
qed

theorem createOrShow_reuses_instance_witness:
  "gitCmd (instances (createOrShow sampleEnv ''ext'' ''git diff HEAD~1'' ''b.txt'' (Some 1)
             (sampleWorld ''a.txt'')) ! 0) = ''git diff HEAD~1'' \<and>
   filePath (instances (createOrShow sampleEnv ''ext'' ''git diff HEAD~1'' ''b.txt'' (Some 1)
             (sampleWorld ''a.txt'')) ! 0) = ''b.txt'' \<and>
   pending (createOrShow sampleEnv ''ext'' ''git diff HEAD~1'' ''b.txt'' (Some 1)
             (sampleWorld ''a.txt'')) = [(0, ''git diff''), (0, ''git diff HEAD~1'')] \<and>
   length (instances (createOrShow sampleEnv ''ext'' ''git diff HEAD~1'' ''b.txt'' (Some 1)
             (sampleWorld ''a.txt''))) = 1 \<and>
   length (instances0 (createOrShow0 sampleEnv ''ext'' ''+new'' (Some 1) sampleWorld0)) = 1 \<and>
   reveals (panel0 (instances0 (createOrShow0 sampleEnv ''ext'' ''+new'' (Some 1)
             sampleWorld0) ! 0)) = reveals (panel0 (instances0 sampleWorld0 ! 0)) @ [1]"
  using createOrShow_reuses_instance [where env = sampleEnv and w = "sampleWorld ''a.txt''"
      and i = 0 and ep = "''ext''" and cmd = "''git diff HEAD~1''" and fp = "''b.txt''"
      and columnArg = "Some 1" and ?w0.0 = sampleWorld0 and ?i0.0 = 0
      and diffContent = "''+new''"]
  by (simp add: sampleWorld_facts sampleWorld0_facts)

text \<open>
  C5. After \<^verbatim>\<open>createOrShow\<close> has reused instance \<open>i\<close> with the watched path
  \<open>fp\<close>, the instance's listener decides every later saved document by \<open>fp\<close> alone,
  however many documents were saved in between: the path stored before the call does not
  occur in the condition.
\<close>

theorem reuse_matches_new_path:
  assumes "currentPanel w = Some i" and "i < length (instances w)"
  shows "firesRefresh i savedPath
           (saveAll earlier (createOrShow env ep cmd fp columnArg w)) \<longleftrightarrow>
         fp = ''.'' \<or> (savedPath \<noteq> [] \<and> suffix fp savedPath)"
proof -
  have "filePath (instances (createOrShow env ep cmd fp columnArg w) ! i) = fp"
    using assms
    by (simp add: createOrShow_reuse refreshViewContent_def updInstance_def reveal_def
        updPanel_def)
  then show ?thesis
    by (simp add: firesRefresh_def pending_onDidSave endsWith_iff_suffix)
qed

theorem reuse_matches_new_path_witness:
  "firesRefresh 0 ''/repo/b.txt''
     (saveAll [''/repo/c.txt''] (createOrShow sampleEnv ''ext'' ''git diff'' ''b.txt'' None
        (sampleWorld ''a.txt''))) \<and>
   \<not> firesRefresh 0 ''/repo/a.txt''
     (saveAll [''/repo/c.txt''] (createOrShow sampleEnv ''ext'' ''git diff'' ''b.txt'' None
        (sampleWorld ''a.txt'')))"
proof -
  have s: "currentPanel (sampleWorld ''a.txt'') = Some 0"
          "0 < length (instances (sampleWorld ''a.txt''))"
    by (simp_all add: sampleWorld_def createOrShow_new initialWorld_def)
  show ?thesis
    using reuse_matches_new_path [OF s, of "''/repo/b.txt''" "[''/repo/c.txt'']" sampleEnv
            "''ext''" "''git diff''" "''b.txt''" None]
          reuse_matches_new_path [OF s, of "''/repo/a.txt''" "[''/repo/c.txt'']" sampleEnv
            "''ext''" "''git diff''" "''b.txt''" None]
    by (simp add: suffix_def)
qed

section \<open>Disposal and the slot\<close>

text \<open>
  C6. In every state the program can reach, disposing the instance in the slot, by
  \<^verbatim>\<open>dispose()\<close> or by closing its panel, empties the slot. The next
  \<^verbatim>\<open>createOrShow\<close> then constructs a new instance, different from the disposed
  one, and puts it into the slot; the disposed instance stays disposed, and the new one is
  the only live instance.
\<close>

theorem dispose_then_createOrShow_constructs:
  assumes "currentPanel (run env es) = Some i"
  shows "currentPanel (dispose i (run env es)) = None \<and>
         currentPanel (closePanel i (run env es)) = None \<and>
         i < length (instances (run env es)) \<and>
         currentPanel (createOrShow env ep cmd fp columnArg (dispose i (run env es))) =
           Some (length (instances (run env es))) \<and>
         length (instances (createOrShow env ep cmd fp columnArg (dispose i (run env es)))) =
           Suc (length (instances (run env es))) \<and>
         disposed (instances (createOrShow env ep cmd fp columnArg (dispose i (run env es))) ! i) \<and>
         liveInstances (createOrShow env ep cmd fp columnArg (dispose i (run env es))) =
           [length (instances (run env es))]"
proof -
  let ?w = "run env es"
  let ?d = "dispose i ?w"
  let ?c = "createOrShow env ep cmd fp columnArg ?d"
  have cw: "consistent ?w" by (rule consistent_run)
  note l = current_is_live [OF cw assms]
  have none: "currentPanel ?d = None" using l(1-3) by (rule dispose_registered)
  have len: "length (instances ?d) = length (instances ?w)" by (rule length_instances_dispose)
  have dd: "disposed (instances ?d ! i)" using l(1) by (rule dispose_disposed)
  have cur: "currentPanel ?c = Some (length (instances ?w))"
    by (simp add: createOrShow_new [OF none] len)
  have "consistent ?c" by (intro consistent_createOrShow consistent_dispose cw)
  then have live: "liveInstances ?c = [length (instances ?w)]"
    by (simp add: liveInstances_consistent cur)
  have "instances ?c ! i = instances ?d ! i"
    using l(1) by (simp add: createOrShow_new [OF none] len nth_append)
  with dd have "disposed (instances ?c ! i)" by simp
  moreover have "length (instances ?c) = Suc (length (instances ?w))"
    by (simp add: createOrShow_new [OF none] len)
  ultimately show ?thesis
    using none closePanel_current [OF cw assms] l(1) cur live by simp
qed

theorem dispose_then_createOrShow_constructs_witness:
  "currentPanel (run sampleEnv [CreateOrShow ''ext'' ''git diff'' ''a.txt'' None]) = Some 0 \<and>
   currentPanel (dispose 0 (run sampleEnv [CreateOrShow ''ext'' ''git diff'' ''a.txt'' None])) =
     None \<and>
   currentPanel (createOrShow sampleEnv ''ext'' ''git diff'' ''b.txt'' None
     (dispose 0 (run sampleEnv [CreateOrShow ''ext'' ''git diff'' ''a.txt'' None]))) = Some 1 \<and>
   liveInstances (createOrShow sampleEnv ''ext'' ''git diff'' ''b.txt'' None
     (dispose 0 (run sampleEnv [CreateOrShow ''ext'' ''git diff'' ''a.txt'' None]))) = [1]"
proof -
  have h: "currentPanel (run sampleEnv [CreateOrShow ''ext'' ''git diff'' ''a.txt'' None]) =
             Some 0"
    by (simp add: run_single sampleWorld_facts)
  show ?thesis
    using dispose_then_createOrShow_constructs [OF h, of "''ext''" "''git diff''" "''b.txt''"
        None]
    by (simp add: run_single sampleWorld_facts)
qed

section \<open>The rendered document\<close>

text \<open>
  C7, as amended. \<^verbatim>\<open>getHtmlForWebview\<close> pastes three texts into its template
  unchanged: the style sheet URI into a quoted attribute, the markup that diff2html
  returns for the diff into the \<^verbatim>\<open>app\<close> division of the body, and the command
  after it. Whatever the three are, the fragment is pasted once, at a place where the
  template has opened \<^verbatim>\<open>html\<close>, \<^verbatim>\<open>body\<close> and the division and nothing else,
  and the command occurs verbatim in the result. The result is one well-formed document
  (every element closed by its own end tag in nesting order, one root element) when the
  fragment is itself balanced markup, the URI holds no double quote and the command holds
  no \<^verbatim>\<open><\<close>: the command is not escaped. The earlier design has no command; it
  pastes the fragment once, directly into the body, and its document is well-formed when
  the fragment is balanced and the URI holds no double quote.
\<close>

theorem getHtmlForWebview_document:
  "(\<exists>pre post.
      (\<forall>d. getHtmlForWebview env v d = pre @ diff2html env d @ post) \<and>
      (CHR 0x22 \<notin> set (getMediaUri env v ''out.min.css'') \<longrightarrow> scan atStart pre = inAppDiv)) \<and>
   sublist (gitCmd v) (getHtmlForWebview env v diffContent) \<and>
   (balancedFragment (diff2html env diffContent) \<and>
    CHR 0x22 \<notin> set (getMediaUri env v ''out.min.css'') \<and>
    CHR ''<'' \<notin> set (gitCmd v) \<longrightarrow>
      wellFormedDocument (getHtmlForWebview env v diffContent)) \<and>
   (\<exists>pre post.
      (\<forall>d. getHtmlForWebview0 env v0 d = pre @ diff2html env d @ post) \<and>
      (CHR 0x22 \<notin> set (getMediaUri0 env v0 ''out.min.css'') \<longrightarrow> scan atStart pre = inBody)) \<and>
   (balancedFragment (diff2html env diffContent) \<and>
    CHR 0x22 \<notin> set (getMediaUri0 env v0 ''out.min.css'') \<longrightarrow>
      wellFormedDocument (getHtmlForWebview0 env v0 diffContent))"
proof -
  let ?pre = "htmlHead @ getMediaUri env v ''out.min.css'' @ htmlBodyOpen"
  let ?post = "htmlCmdOpen @ gitCmd v @ htmlTail"
  have "\<forall>d. getHtmlForWebview env v d = ?pre @ diff2html env d @ ?post"
    by (simp add: getHtmlForWebview_def)
  moreover have "CHR 0x22 \<notin> set (getMediaUri env v ''out.min.css'') \<longrightarrow>
      scan atStart ?pre = inAppDiv"
    using scan_to_fragment by blast
  ultimately have p1: "\<exists>pre post.
      (\<forall>d. getHtmlForWebview env v d = pre @ diff2html env d @ post) \<and>
      (CHR 0x22 \<notin> set (getMediaUri env v ''out.min.css'') \<longrightarrow> scan atStart pre = inAppDiv)"
    by blast
  have "getHtmlForWebview env v diffContent =
          (htmlHead @ getMediaUri env v ''out.min.css'' @ htmlBodyOpen @
           diff2html env diffContent @ htmlCmdOpen) @ gitCmd v @ htmlTail"
    by (simp add: getHtmlForWebview_def)
  then have p2: "sublist (gitCmd v) (getHtmlForWebview env v diffContent)"
    unfolding sublist_def by blast
  have p3: "balancedFragment (diff2html env diffContent) \<and>
            CHR 0x22 \<notin> set (getMediaUri env v ''out.min.css'') \<and>
            CHR ''<'' \<notin> set (gitCmd v) \<longrightarrow>
              wellFormedDocument (getHtmlForWebview env v diffContent)"
  proof
    assume "balancedFragment (diff2html env diffContent) \<and>
            CHR 0x22 \<notin> set (getMediaUri env v ''out.min.css'') \<and>
            CHR ''<'' \<notin> set (gitCmd v)"
    then have f: "balancedFragment (diff2html env diffContent)"
      and u: "CHR 0x22 \<notin> set (getMediaUri env v ''out.min.css'')"
      and c: "CHR ''<'' \<notin> set (gitCmd v)" by simp_all
    show "wellFormedDocument (getHtmlForWebview env v diffContent)"
      unfolding wellFormedDocument_def getHtmlForWebview_def
      by (simp only: scan_append scan_htmlHead scan_uri [OF u] scan_htmlBodyOpen
          scan_fragment [OF f] scan_htmlCmdOpen scan_cmd [OF c] scan_htmlTail)
  qed
  let ?pre0 = "htmlHead @ getMediaUri0 env v0 ''out.min.css'' @ htmlBodyOpen0"
  have "\<forall>d. getHtmlForWebview0 env v0 d = ?pre0 @ diff2html env d @ htmlTail0"
    by (simp add: getHtmlForWebview0_def)
  moreover have "CHR 0x22 \<notin> set (getMediaUri0 env v0 ''out.min.css'') \<longrightarrow>
      scan atStart ?pre0 = inBody"
  proof
    assume u: "CHR 0x22 \<notin> set (getMediaUri0 env v0 ''out.min.css'')"
    show "scan atStart ?pre0 = inBody"
      by (simp only: scan_append scan_htmlHead scan_uri [OF u] scan_htmlBodyOpen0)
  qed
  ultimately have q1: "\<exists>pre post.
      (\<forall>d. getHtmlForWebview0 env v0 d = pre @ diff2html env d @ post) \<and>
      (CHR 0x22 \<notin> set (getMediaUri0 env v0 ''out.min.css'') \<longrightarrow> scan atStart pre = inBody)"
    by blast
  have q2: "balancedFragment (diff2html env diffContent) \<and>
            CHR 0x22 \<notin> set (getMediaUri0 env v0 ''out.min.css'') \<longrightarrow>
              wellFormedDocument (getHtmlForWebview0 env v0 diffContent)"
  proof
    assume "balancedFragment (diff2html env diffContent) \<and>
            CHR 0x22 \<notin> set (getMediaUri0 env v0 ''out.min.css'')"
    then have f: "balancedFragment (diff2html env diffContent)"
      and u: "CHR 0x22 \<notin> set (getMediaUri0 env v0 ''out.min.css'')" by simp_all
    show "wellFormedDocument (getHtmlForWebview0 env v0 diffContent)"
      unfolding wellFormedDocument_def getHtmlForWebview0_def
      by (simp only: scan_append scan_htmlHead scan_uri [OF u] scan_htmlBodyOpen0
          scan_fragment0 [OF f] scan_htmlTail0)
  qed
  show ?thesis
    by (rule conjI [OF p1 conjI [OF p2 conjI [OF p3 conjI [OF q1 q2]]]])
qed

theorem getHtmlForWebview_document_witness:
  "balancedFragment (diff2html sampleEnv sampleDiff) \<and>
   sublist ''git diff'' (getHtmlForWebview sampleEnv (sampleView ''git diff'') sampleDiff) \<and>
   wellFormedDocument (getHtmlForWebview sampleEnv (sampleView ''git diff'') sampleDiff) \<and>
   wellFormedDocument (getHtmlForWebview0 sampleEnv (instances0 sampleWorld0 ! 0) sampleDiff)"
  using getHtmlForWebview_document [where env = sampleEnv and v = "sampleView ''git diff''"
      and diffContent = sampleDiff and ?v0.0 = "instances0 sampleWorld0 ! 0"]
  by (simp add: sampleView_fields sample_fragment sampleWorld0_uri)

text \<open>
  C7 as stated fails for a command that holds markup. With the diff of the
  specification and the command \<^verbatim>\<open>git diff </dev/null\<close>, the fragment is balanced
  and the command occurs verbatim, and the document is not well-formed: the command opens
  an end tag that swallows the \<^verbatim>\<open></div>\<close> after it.
\<close>

theorem getHtmlForWebview_document_counterexample:
  "balancedFragment (diff2html sampleEnv sampleDiff) \<and>
   sublist ''git diff </dev/null''
     (getHtmlForWebview sampleEnv (sampleView ''git diff </dev/null'') sampleDiff) \<and>
   \<not> wellFormedDocument
        (getHtmlForWebview sampleEnv (sampleView ''git diff </dev/null'') sampleDiff)"
proof -
  let ?v = "sampleView ''git diff </dev/null''"
  have q: "CHR 0x22 \<notin> set (getMediaUri sampleEnv ?v ''out.min.css'')"
    by (simp add: sampleView_fields)
  have split: "getHtmlForWebview sampleEnv ?v sampleDiff =
          (htmlHead @ getMediaUri sampleEnv ?v ''out.min.css'' @ htmlBodyOpen @
           diff2html sampleEnv sampleDiff @ htmlCmdOpen) @ ''git diff </dev/null'' @ htmlTail"
    by (simp add: getHtmlForWebview_def sampleView_fields(1))
  have mid: "scan atStart
          (htmlHead @ getMediaUri sampleEnv ?v ''out.min.css'' @ htmlBodyOpen @
           diff2html sampleEnv sampleDiff @ htmlCmdOpen) = inAppDiv"
    using q sample_fragment by (rule scan_after_fragment)
  have rest: "scan inAppDiv (''git diff </dev/null'' @ htmlTail) = None"
    by (simp add: inAppDiv_def scan_def htmlTail_def nl_def tab_def tagName_def isSpace_def
        isVoid_def)
  have "scan atStart (getHtmlForWebview sampleEnv ?v sampleDiff) = None"
    unfolding split scan_append [of _ "_ @ _ @ _ @ _ @ _"] mid rest ..
  then have "\<not> wellFormedDocument (getHtmlForWebview sampleEnv ?v sampleDiff)"
    by (simp add: wellFormedDocument_def atEnd_def)
  moreover have "sublist ''git diff </dev/null'' (getHtmlForWebview sampleEnv ?v sampleDiff)"
    unfolding split sublist_def by blast
  ultimately show ?thesis using sample_fragment by simp
qed

section \<open>Disposing twice\<close>

text \<open>
  C8. A second \<^verbatim>\<open>dispose()\<close> changes nothing: the state after two calls is the
  state after one. An instance that was not yet disposed has run, after both calls, each
  of its registered cleanup actions once, in the order of registration; for the instance
  in the slot of a reachable state these are the four actions the constructor registers:
  clear the slot, detach the dispose listener, detach the view-state listener, dispose
  the panel.
\<close>

theorem dispose_twice:
  "dispose i (dispose i w) = dispose i w \<and>
   (i < length (instances w) \<and> \<not> disposed (instances w ! i) \<longrightarrow>
      cleanupTrace (dispose i (dispose i w)) =
        cleanupTrace w @ map (Pair i) (disposables (instances w ! i))) \<and>
   (currentPanel (run env es) = Some j \<longrightarrow>
      cleanupTrace (dispose j (dispose j (run env es))) =
        cleanupTrace (run env es) @
          [(j, ClearCurrentPanel), (j, OnDidDisposeListener),
           (j, OnDidChangeViewStateListener), (j, ThePanel)])"
proof (intro conjI impI)
  show "dispose i (dispose i w) = dispose i w" by (rule dispose_idem)
next
  assume "i < length (instances w) \<and> \<not> disposed (instances w ! i)"
  then have "cleanupTrace (dispose i w) =
               cleanupTrace w @ map (Pair i) (disposables (instances w ! i))"
    by (simp add: dispose_def foldl_runCleanup_trace updInstance_def)
  then show "cleanupTrace (dispose i (dispose i w)) =
               cleanupTrace w @ map (Pair i) (disposables (instances w ! i))"
    by (simp add: dispose_idem)
next
  assume cur: "currentPanel (run env es) = Some j"
  note l = current_is_live [OF consistent_run cur]
  have "cleanupTrace (dispose j (run env es)) =
          cleanupTrace (run env es) @ map (Pair j) registered"
    using l(1-3) by (rule dispose_registered)
  then show "cleanupTrace (dispose j (dispose j (run env es))) =
               cleanupTrace (run env es) @
                 [(j, ClearCurrentPanel), (j, OnDidDisposeListener),
                  (j, OnDidChangeViewStateListener), (j, ThePanel)]"
    by (simp add: dispose_idem registered_def)
qed

theorem dispose_twice_witness:
  "currentPanel (run sampleEnv [CreateOrShow ''ext'' ''git diff'' ''a.txt'' None]) = Some 0 \<and>
   cleanupTrace (dispose 0 (dispose 0
     (run sampleEnv [CreateOrShow ''ext'' ''git diff'' ''a.txt'' None]))) =
     [(0, ClearCurrentPanel), (0, OnDidDisposeListener),
      (0, OnDidChangeViewStateListener), (0, ThePanel)]"
proof -
  have h: "currentPanel (run sampleEnv [CreateOrShow ''ext'' ''git diff'' ''a.txt'' None]) =
             Some 0"
    by (simp add: run_single sampleWorld_facts)
  show ?thesis
    using dispose_twice [of 0 "sampleWorld ''a.txt''" sampleEnv
        "[CreateOrShow ''ext'' ''git diff'' ''a.txt'' None]" 0,
        THEN conjunct2, THEN conjunct2, rule_format, OF h] h
    by (simp add: run_single sampleWorld_facts)
qed

section \<open>The save listener after disposal\<close>

text \<open>
  C9 fails on the code. The constructor subscribes to
  \<^verbatim>\<open>workspace.onDidSaveTextDocument\<close> and drops the subscription it gets back: it is
  not among the disposables it registers, while the two listeners on the panel are. The
  user opens the view on \<^verbatim>\<open>file.txt\<close>, closes the panel, and saves
  \<^verbatim>\<open>/repo/sub/file.txt\<close>: the view is disposed and the slot is empty, its save
  listener is still subscribed, and the save makes it log a line and run the command
  again.
\<close>

theorem save_listener_outlives_dispose:
  "disposed (instances (run sampleEnv
      [CreateOrShow ''ext'' ''git diff'' ''file.txt'' None, ClosePanel 0]) ! 0) \<and>
   currentPanel (run sampleEnv
      [CreateOrShow ''ext'' ''git diff'' ''file.txt'' None, ClosePanel 0]) = None \<and>
   saveListeners (run sampleEnv
      [CreateOrShow ''ext'' ''git diff'' ''file.txt'' None, ClosePanel 0]) = [0] \<and>
   pending (run sampleEnv
      [CreateOrShow ''ext'' ''git diff'' ''file.txt'' None, ClosePanel 0]) =
     [(0, ''git diff'')] \<and>
   pending (run sampleEnv
      [CreateOrShow ''ext'' ''git diff'' ''file.txt'' None, ClosePanel 0,
       SaveTextDocument ''/repo/sub/file.txt'']) =
     [(0, ''git diff''), (0, ''git diff'')] \<and>
   logger (instances (run sampleEnv
      [CreateOrShow ''ext'' ''git diff'' ''file.txt'' None, ClosePanel 0,
       SaveTextDocument ''/repo/sub/file.txt'']) ! 0) =
     [''<<<refreshViewContent>>>  file.txt'']"
  by (simp add: run_def createOrShow_new initialWorld_def closePanel_def dispose_def
      registered_def runCleanup_def updPanel_def updInstance_def saveTextDocument_def
      onDidSaveTextDocument_def endsWith_def refreshViewContent_def appendLine_def
      createWebviewPanel_def Let_def)

section \<open>The visibility flag\<close>

text \<open>
  C10. The instance that \<^verbatim>\<open>createOrShow\<close> constructs starts with
  \<^verbatim>\<open>isPanelVisible\<close> true. The view-state listener leaves the flag equal to the
  visibility the panel reports: it assigns when the two differ and does nothing when they
  agree; so when the host shows or hides a live panel, the flag becomes the reported
  value. No other event changes the flag of an existing instance: if a step changes the
  flag of instance \<open>j\<close>, the step is a view-state change of \<open>j\<close>'s panel. The earlier
  design starts the flag and updates it in the same way, and its
  \<^verbatim>\<open>createOrShow\<close> leaves the flags of existing instances alone.
\<close>

theorem isPanelVisible_tracks_host:
  "(currentPanel w = None \<longrightarrow>
      isPanelVisible (instances (createOrShow env ep cmd fp columnArg w) !
        length (instances w))) \<and>
   (i < length (instances w) \<longrightarrow>
      isPanelVisible (instances (onDidChangeViewState i w) ! i) =
        visible (panel (instances w ! i))) \<and>
   (visible (panel (instances w ! i)) = isPanelVisible (instances w ! i) \<longrightarrow>
      onDidChangeViewState i w = w) \<and>
   (i < length (instances w) \<and> \<not> panelDisposed (panel (instances w ! i)) \<and>
    onDidChangeViewStateAttached (panel (instances w ! i)) \<longrightarrow>
      isPanelVisible (instances (changeViewState i vis w) ! i) = vis) \<and>
   (j < length (instances w) \<and>
    isPanelVisible (instances (step env w e) ! j) \<noteq> isPanelVisible (instances w ! j) \<longrightarrow>
      (\<exists>vis'. e = ChangeViewState j vis')) \<and>
   (currentPanel0 w0 = None \<longrightarrow>
      isPanelVisible0 (instances0 (createOrShow0 env ep diffContent columnArg w0) !
        length (instances0 w0))) \<and>
   (i < length (instances0 w0) \<longrightarrow>
      isPanelVisible0 (instances0 (onDidChangeViewState0 i w0) ! i) =
        visible (panel0 (instances0 w0 ! i))) \<and>
   (visible (panel0 (instances0 w0 ! i)) = isPanelVisible0 (instances0 w0 ! i) \<longrightarrow>
      onDidChangeViewState0 i w0 = w0) \<and>
   (j < length (instances0 w0) \<longrightarrow>
      isPanelVisible0 (instances0 (createOrShow0 env ep diffContent columnArg w0) ! j) =
        isPanelVisible0 (instances0 w0 ! j))"
proof -
  have a1: "currentPanel w = None \<longrightarrow>
      isPanelVisible (instances (createOrShow env ep cmd fp columnArg w) !
        length (instances w))"
    by (simp add: createOrShow_new)
  have a2: "i < length (instances w) \<longrightarrow>
      isPanelVisible (instances (onDidChangeViewState i w) ! i) =
        visible (panel (instances w ! i))"
    by (simp add: onDidChangeViewState_def Let_def updInstance_def)
  have a3: "visible (panel (instances w ! i)) = isPanelVisible (instances w ! i) \<longrightarrow>
      onDidChangeViewState i w = w"
    by (simp add: onDidChangeViewState_def)
  have a4: "i < length (instances w) \<and> \<not> panelDisposed (panel (instances w ! i)) \<and>
      onDidChangeViewStateAttached (panel (instances w ! i)) \<longrightarrow>
        isPanelVisible (instances (changeViewState i vis w) ! i) = vis"
    by (simp add: changeViewState_def onDidChangeViewState_def Let_def updPanel_def
        updInstance_def)
  have a5: "j < length (instances w) \<and>
      isPanelVisible (instances (step env w e) ! j) \<noteq> isPanelVisible (instances w ! j) \<longrightarrow>
        (\<exists>vis'. e = ChangeViewState j vis')"
  proof
    assume a: "j < length (instances w) \<and>
               isPanelVisible (instances (step env w e) ! j) \<noteq> isPanelVisible (instances w ! j)"
    show "\<exists>vis'. e = ChangeViewState j vis'"
    proof (rule ccontr)
      assume "\<not> (\<exists>vis'. e = ChangeViewState j vis')"
      then have "\<And>vis'. e \<noteq> ChangeViewState j vis'" by simp
      with a have "isPanelVisible (instances (step env w e) ! j) =
                   isPanelVisible (instances w ! j)"
        by (intro vis_step) simp_all
      with a show False by simp
    qed
  qed
  have b1: "currentPanel0 w0 = None \<longrightarrow>
      isPanelVisible0 (instances0 (createOrShow0 env ep diffContent columnArg w0) !
        length (instances0 w0))"
    by (simp add: createOrShow0_new)
  have b2: "i < length (instances0 w0) \<longrightarrow>
      isPanelVisible0 (instances0 (onDidChangeViewState0 i w0) ! i) =
        visible (panel0 (instances0 w0 ! i))"
    by (simp add: onDidChangeViewState0_def Let_def updInstance0_def)
  have b3: "visible (panel0 (instances0 w0 ! i)) = isPanelVisible0 (instances0 w0 ! i) \<longrightarrow>
      onDidChangeViewState0 i w0 = w0"
    by (simp add: onDidChangeViewState0_def)
  have b4: "j < length (instances0 w0) \<longrightarrow>
      isPanelVisible0 (instances0 (createOrShow0 env ep diffContent columnArg w0) ! j) =
        isPanelVisible0 (instances0 w0 ! j)"
    by (simp add: vis0_createOrShow0)
  show ?thesis
    by (rule conjI [OF a1 conjI [OF a2 conjI [OF a3 conjI [OF a4 conjI [OF a5
          conjI [OF b1 conjI [OF b2 conjI [OF b3 b4]]]]]]]])
qed

theorem isPanelVisible_tracks_host_witness:
  "currentPanel initialWorld = None \<and>
   isPanelVisible (instances (createOrShow sampleEnv ''ext'' ''git diff'' ''a.txt'' None
      initialWorld) ! 0) \<and>
   \<not> isPanelVisible (instances (changeViewState 0 False (sampleWorld ''a.txt'')) ! 0) \<and>
   isPanelVisible0 (instances0 (createOrShow0 sampleEnv ''ext'' sampleDiff None
      initialWorld0) ! 0)"
proof -
  have a: "isPanelVisible (instances (createOrShow sampleEnv ''ext'' ''git diff'' ''a.txt'' None
             initialWorld) ! 0) \<and>
           isPanelVisible0 (instances0 (createOrShow0 sampleEnv ''ext'' sampleDiff None
             initialWorld0) ! 0)"
    using isPanelVisible_tracks_host [where w = initialWorld and env = sampleEnv
        and ep = "''ext''" and cmd = "''git diff''" and fp = "''a.txt''" and columnArg = None
        and ?w0.0 = initialWorld0 and diffContent = sampleDiff]
    by (simp add: initialWorld_def initialWorld0_def)
  have b: "\<not> isPanelVisible (instances (changeViewState 0 False (sampleWorld ''a.txt'')) ! 0)"
    using isPanelVisible_tracks_host [where w = "sampleWorld ''a.txt''" and i = 0
        and vis = False]
    by (simp add: sampleWorld_facts sampleWorld_panel)
  from a b show ?thesis by (simp add: initialWorld_def)
qed

end
